(* ===== verification/Qcow2_Prelude.thy ===== *)
theory Qcow2_Prelude
  imports Main "HOL-Library.Word"
begin

text \<open>
  The vocabulary every component of the development shares: the machine integer types of the
  Rust sources, the outcome of a computation that may return a value, return an error or panic,
  the sequencing of such computations over a state, the checked arithmetic of a build with
  overflow checks, slices and big-endian integers.
\<close>

unbundle bit_operations_syntax

section \<open>Machine integers\<close>

type_synonym u8 = "8 word"
type_synonym u16 = "16 word"
type_synonym u32 = "32 word"
type_synonym u64 = "64 word"

text \<open>
  A Rust \<open>i64\<close> is a 64-bit word read with \<^const>\<open>sint\<close>.  A \<open>usize\<close> is 64 bits wide (the
  targets the repository builds for): lengths and indices of buffers are natural numbers, and the
  places where \<open>usize\<close> arithmetic could overflow compare with \<open>usize_limit\<close>.
\<close>

type_synonym i64 = "64 word"

definition usize_limit :: nat where
  "usize_limit = 2 ^ 64"

text \<open>
  The largest length a Rust slice, vector or file can have: \<open>isize::MAX\<close> bytes.
\<close>

definition isize_limit :: nat where
  "isize_limit = 2 ^ 63"

lemma isize_limit_less [simp]: "isize_limit < usize_limit"
  by (simp add: isize_limit_def usize_limit_def)

named_theorems width_simps \<open>the numeric limits, unfolded\<close>

declare usize_limit_def [width_simps] isize_limit_def [width_simps]

section \<open>Outcomes\<close>

text \<open>
  What a Rust function does when called: return a value, return an error, or panic.  A panic is a
  value of its own, so that "never panics" is a statement about the model.
\<close>

datatype ('e, 'a) outcome = Ok 'a | Err 'e | Panic

text \<open>The \<open>?\<close> operator on a result that touches no state.\<close>

fun and_then :: "('e, 'a) outcome \<Rightarrow> ('a \<Rightarrow> ('e, 'b) outcome) \<Rightarrow> ('e, 'b) outcome" where
  "and_then (Ok a) f = f a"
| "and_then (Err e) f = Err e"
| "and_then Panic f = Panic"

fun map_outcome_err :: "('e \<Rightarrow> 'f) \<Rightarrow> ('e, 'a) outcome \<Rightarrow> ('f, 'a) outcome" where
  "map_outcome_err f (Ok a) = Ok a"
| "map_outcome_err f (Err e) = Err (f e)"
| "map_outcome_err f Panic = Panic"

lemma and_then_Ok_iff: "and_then m f = Ok b \<longleftrightarrow> (\<exists>a. m = Ok a \<and> f a = Ok b)"
  by (cases m) auto

lemma and_then_Panic_iff: "and_then m f = Panic \<longleftrightarrow> m = Panic \<or> (\<exists>a. m = Ok a \<and> f a = Panic)"
  by (cases m) auto

lemma and_then_Err_iff: "and_then m f = Err e \<longleftrightarrow> m = Err e \<or> (\<exists>a. m = Ok a \<and> f a = Err e)"
  by (cases m) auto

lemma map_outcome_err_iffs [simp]:
  "map_outcome_err f m = Ok a \<longleftrightarrow> m = Ok a"
  "map_outcome_err f m = Panic \<longleftrightarrow> m = Panic"
  "map_outcome_err f m = Err e \<longleftrightarrow> (\<exists>d. m = Err d \<and> e = f d)"
  by (cases m; auto)+

section \<open>Stateful operations\<close>

text \<open>
  A method on \<open>&mut self\<close>: from a state to an outcome and the state it leaves, which is there
  on every path, the error paths included.
\<close>

type_synonym ('s, 'e, 'a) op = "'s \<Rightarrow> ('e, 'a) outcome \<times> 's"

definition st_ret :: "'a \<Rightarrow> ('s, 'e, 'a) op" where
  "st_ret a = (\<lambda>s. (Ok a, s))"

definition st_err :: "'e \<Rightarrow> ('s, 'e, 'a) op" where
  "st_err e = (\<lambda>s. (Err e, s))"

definition st_panic :: "('s, 'e, 'a) op" where
  "st_panic = (\<lambda>s. (Panic, s))"

definition st_lift :: "('e, 'a) outcome \<Rightarrow> ('s, 'e, 'a) op" where
  "st_lift m = (\<lambda>s. (m, s))"

text \<open>The \<open>?\<close> operator on a stateful operation: an error or a panic ends the function.\<close>

definition st_bind :: "('s, 'e, 'a) op \<Rightarrow> ('a \<Rightarrow> ('s, 'e, 'b) op) \<Rightarrow> ('s, 'e, 'b) op" where
  "st_bind m f = (\<lambda>s. case m s of
      (Ok a, s') \<Rightarrow> f a s'
    | (Err e, s') \<Rightarrow> (Err e, s')
    | (Panic, s') \<Rightarrow> (Panic, s'))"

text \<open>Reading the fields of \<open>self\<close>, and assigning to them.\<close>

definition st_with :: "('s \<Rightarrow> ('s, 'e, 'a) op) \<Rightarrow> ('s, 'e, 'a) op" where
  "st_with f = (\<lambda>s. f s s)"

definition st_modify :: "('s \<Rightarrow> 's) \<Rightarrow> ('s, 'e, unit) op" where
  "st_modify f = (\<lambda>s. (Ok (), f s))"

text \<open>The conversion \<open>?\<close> applies to the error.\<close>

definition st_map_err :: "('e \<Rightarrow> 'f) \<Rightarrow> ('s, 'e, 'a) op \<Rightarrow> ('s, 'f, 'a) op" where
  "st_map_err f m = (\<lambda>s. (map_outcome_err f (fst (m s)), snd (m s)))"

text \<open>
  \<open>.ok()\<close> and \<open>.is_err()\<close> on the result of a stateful operation: the error becomes a value, the
  state it left stays.
\<close>

definition st_ok :: "('s, 'e, 'a) op \<Rightarrow> ('s, 'f, 'a option) op" where
  "st_ok m = (\<lambda>s. case m s of
      (Ok a, s') \<Rightarrow> (Ok (Some a), s')
    | (Err e, s') \<Rightarrow> (Ok None, s')
    | (Panic, s') \<Rightarrow> (Panic, s'))"

named_theorems st_simps \<open>equations that run stateful operations\<close>

lemma st_ret_apply [st_simps]: "st_ret a s = (Ok a, s)"
  and st_err_apply [st_simps]: "st_err e s = (Err e, s)"
  and st_panic_apply [st_simps]: "st_panic s = (Panic, s)"
  and st_lift_apply [st_simps]: "st_lift m s = (m, s)"
  and st_with_apply [st_simps]: "st_with f s = f s s"
  and st_modify_apply [st_simps]: "st_modify g s = (Ok (), g s)"
  by (simp_all add: st_ret_def st_err_def st_panic_def st_lift_def st_with_def st_modify_def)

lemma st_bind_Ok: "m s = (Ok a, s') \<Longrightarrow> st_bind m f s = f a s'"
  and st_bind_Err: "m s = (Err e, s') \<Longrightarrow> st_bind m f s = (Err e, s')"
  and st_bind_Panic: "m s = (Panic, s') \<Longrightarrow> st_bind m f s = (Panic, s')"
  by (simp_all add: st_bind_def)

lemma st_bind_ret [st_simps]: "st_bind (st_ret a) f s = f a s"
  and st_bind_err [st_simps]: "st_bind (st_err e) f s = (Err e, s)"
  and st_bind_panic [st_simps]: "st_bind st_panic f s = (Panic, s)"
  and st_bind_lift_Ok [st_simps]: "st_bind (st_lift (Ok a)) f s = f a s"
  and st_bind_lift_Err [st_simps]: "st_bind (st_lift (Err e)) f s = (Err e, s)"
  and st_bind_lift_Panic [st_simps]: "st_bind (st_lift Panic) f s = (Panic, s)"
  by (simp_all add: st_bind_def st_simps)

lemma st_bind_lift_Ok_fun: "st_bind (st_lift (Ok a)) f = f a"
  and st_bind_ret_fun: "st_bind (st_ret a) f = f a"
  by (simp_all add: fun_eq_iff st_simps)

lemma st_bind_modify [st_simps]: "st_bind (st_modify g) f s = f () (g s)"
  by (simp add: st_bind_def st_simps)

lemma st_bind_assoc: "st_bind (st_bind m f) g = st_bind m (\<lambda>a. st_bind (f a) g)"
  by (rule ext) (simp add: st_bind_def split: prod.split outcome.split)

lemma st_bind_cong:
  "(\<And>a s'. m s = (Ok a, s') \<Longrightarrow> f a s' = g a s') \<Longrightarrow> st_bind m f s = st_bind m g s"
  by (auto simp: st_bind_def split: prod.split outcome.split)

text \<open>
  How a sequenced operation ends: the case analysis behind every proof about one, instead of a
  split of the product and the outcome by hand.
\<close>

lemma st_bind_cases:
  assumes "st_bind m f s = (r, t)"
  obtains (ok) a s' where "m s = (Ok a, s')" and "f a s' = (r, t)"
  | (err) e where "m s = (Err e, t)" and "r = Err e"
  | (panic) "m s = (Panic, t)" and "r = Panic"
  using assms by (auto simp: st_bind_def split: prod.splits outcome.splits)

lemma st_map_err_apply [st_simps]:
  "m s = (x, s') \<Longrightarrow> st_map_err f m s = (map_outcome_err f x, s')"
  by (simp add: st_map_err_def)

lemma st_ok_Ok: "m s = (Ok a, s') \<Longrightarrow> st_ok m s = (Ok (Some a), s')"
  and st_ok_Err: "m s = (Err e, s') \<Longrightarrow> st_ok m s = (Ok None, s')"
  by (simp_all add: st_ok_def)

section \<open>Totality of an operation under an invariant\<close>

text \<open>
  \<open>op_safe P m Q\<close>: from a state in \<open>P\<close> the operation does not panic and leaves a state in \<open>P\<close>,
  and a value it returns satisfies \<open>Q\<close>.  The rules below follow the shape of the operation, so
  panic-freedom of a function is proved by walking through its text.
\<close>

definition op_safe :: "('s \<Rightarrow> bool) \<Rightarrow> ('s, 'e, 'a) op \<Rightarrow> ('a \<Rightarrow> bool) \<Rightarrow> bool" where
  "op_safe P m Q \<longleftrightarrow> (\<forall>s. P s \<longrightarrow>
     fst (m s) \<noteq> Panic \<and> P (snd (m s)) \<and> (\<forall>a. fst (m s) = Ok a \<longrightarrow> Q a))"

named_theorems safe_intros \<open>introduction rules for op\_safe\<close>

lemma op_safeI:
  assumes "\<And>s r t. P s \<Longrightarrow> m s = (r, t) \<Longrightarrow> r \<noteq> Panic \<and> P t \<and> (\<forall>a. r = Ok a \<longrightarrow> Q a)"
  shows "op_safe P m Q"
  unfolding op_safe_def
proof (intro allI impI)
  fix s
  assume "P s"
  then show "fst (m s) \<noteq> Panic \<and> P (snd (m s)) \<and> (\<forall>a. fst (m s) = Ok a \<longrightarrow> Q a)"
    using assms [of s "fst (m s)" "snd (m s)"] by simp
qed

lemma op_safeD:
  assumes "op_safe P m Q" and "P s" and "m s = (r, t)"
  shows "r \<noteq> Panic" and "P t" and "\<And>a. r = Ok a \<Longrightarrow> Q a"
  using assms by (fastforce simp: op_safe_def)+

lemma op_safe_ret [safe_intros]: "Q a \<Longrightarrow> op_safe P (st_ret a) Q"
  by (simp add: op_safe_def st_simps)

lemma op_safe_err [safe_intros]: "op_safe P (st_err e) Q"
  by (simp add: op_safe_def st_simps)

lemma op_safe_lift: "m \<noteq> Panic \<Longrightarrow> (\<And>a. m = Ok a \<Longrightarrow> Q a) \<Longrightarrow> op_safe P (st_lift m) Q"
  by (simp add: op_safe_def st_simps)

lemma op_safe_with: "(\<And>s. P s \<Longrightarrow> op_safe P (f s) Q) \<Longrightarrow> op_safe P (st_with f) Q"
  by (auto simp: op_safe_def st_simps)

lemma op_safe_bind:
  assumes "op_safe P m R" and "\<And>a. R a \<Longrightarrow> op_safe P (f a) Q"
  shows "op_safe P (st_bind m f) Q"
proof (rule op_safeI)
  fix s r t
  assume "P s" and "st_bind m f s = (r, t)"
  from this(2) show "r \<noteq> Panic \<and> P t \<and> (\<forall>a. r = Ok a \<longrightarrow> Q a)"
  proof (cases rule: st_bind_cases)
    case (ok a s')
    with assms \<open>P s\<close> have "P s'" and "R a"
      by (auto dest: op_safeD)
    with assms(2) ok(2) show ?thesis
      by (blast dest: op_safeD)
  next
    case (err e)
    with assms(1) \<open>P s\<close> show ?thesis by (auto dest: op_safeD)
  next
    case panic
    with assms(1) \<open>P s\<close> show ?thesis by (auto dest: op_safeD)
  qed
qed

lemma op_safe_map_err [safe_intros]: "op_safe P m Q \<Longrightarrow> op_safe P (st_map_err f m) Q"
  by (simp add: op_safe_def st_map_err_def)

lemma op_safe_ok:
  assumes "op_safe P m R" and "Q None" and "\<And>a. R a \<Longrightarrow> Q (Some a)"
  shows "op_safe P (st_ok m) Q"
proof (rule op_safeI)
  fix s r t
  assume s: "P s" and "st_ok m s = (r, t)"
  then show "r \<noteq> Panic \<and> P t \<and> (\<forall>a. r = Ok a \<longrightarrow> Q a)"
    using op_safeD [OF assms(1) s, of "fst (m s)" "snd (m s)"] assms(2,3)
    by (auto simp: st_ok_def split: prod.splits outcome.splits)
qed

lemma op_safe_if [safe_intros]:
  "(b \<Longrightarrow> op_safe P m Q) \<Longrightarrow> (\<not> b \<Longrightarrow> op_safe P n Q) \<Longrightarrow> op_safe P (if b then m else n) Q"
  by simp

lemma op_safe_weaken: "op_safe P m R \<Longrightarrow> (\<And>a. R a \<Longrightarrow> Q a) \<Longrightarrow> op_safe P m Q"
  by (auto simp: op_safe_def)

section \<open>Checked arithmetic\<close>

text \<open>
  The arithmetic of a build with overflow checks (the profile the tests and the fuzz targets run
  with): the operation panics where a build without them would wrap around.
\<close>

definition add_chk :: "'a::len word \<Rightarrow> 'a word \<Rightarrow> ('e, 'a word) outcome" where
  "add_chk a b = (if unat a + unat b < 2 ^ LENGTH('a) then Ok (a + b) else Panic)"

definition sub_chk :: "'a::len word \<Rightarrow> 'a word \<Rightarrow> ('e, 'a word) outcome" where
  "sub_chk a b = (if b \<le> a then Ok (a - b) else Panic)"

definition mul_chk :: "'a::len word \<Rightarrow> 'a word \<Rightarrow> ('e, 'a word) outcome" where
  "mul_chk a b = (if unat a * unat b < 2 ^ LENGTH('a) then Ok (a * b) else Panic)"

definition div_chk :: "'a::len word \<Rightarrow> 'a word \<Rightarrow> ('e, 'a word) outcome" where
  "div_chk a b = (if b = 0 then Panic else Ok (a div b))"

definition mod_chk :: "'a::len word \<Rightarrow> 'a word \<Rightarrow> ('e, 'a word) outcome" where
  "mod_chk a b = (if b = 0 then Panic else Ok (a mod b))"

text \<open>A shift by the width of the type or more overflows.\<close>

definition shl_chk :: "'a::len word \<Rightarrow> u32 \<Rightarrow> ('e, 'a word) outcome" where
  "shl_chk a n = (if unat n < LENGTH('a) then Ok (push_bit (unat n) a) else Panic)"

definition shr_chk :: "'a::len word \<Rightarrow> u32 \<Rightarrow> ('e, 'a word) outcome" where
  "shr_chk a n = (if unat n < LENGTH('a) then Ok (drop_bit (unat n) a) else Panic)"

text \<open>Addition of \<open>i64\<close> values.\<close>

definition sadd_chk :: "i64 \<Rightarrow> i64 \<Rightarrow> ('e, i64) outcome" where
  "sadd_chk a b =
     (if - (2 ^ 63) \<le> sint a + sint b \<and> sint a + sint b < 2 ^ 63 then Ok (a + b) else Panic)"

text \<open>Rust's \<open>checked_add\<close> and \<open>checked\<close> arithmetic on \<open>usize\<close> values.\<close>

definition usize_checked_add :: "nat \<Rightarrow> nat \<Rightarrow> nat option" where
  "usize_checked_add a b = (if a + b < usize_limit then Some (a + b) else None)"

lemma add_chk_Ok: "unat a + unat b < 2 ^ LENGTH('a) \<Longrightarrow> add_chk a b = Ok (a + b)"
  for a b :: "'a::len word"
  by (simp add: add_chk_def)

lemma unat_plus_no_overflow: "unat a + unat b < 2 ^ LENGTH('a) \<Longrightarrow> unat (a + b) = unat a + unat b"
  for a b :: "'a::len word"
  by (simp add: unat_word_ariths)

lemma unat_times_no_overflow: "unat a * unat b < 2 ^ LENGTH('a) \<Longrightarrow> unat (a * b) = unat a * unat b"
  for a b :: "'a::len word"
  by (simp add: unat_word_ariths)

lemma unat_ucast_u32: "unat (ucast w :: u64) = unat w" for w :: u32
proof -
  have "unat w < 2 ^ 64" using unsigned_less [of w, where 'a = nat] by simp
  then show ?thesis by (simp add: unsigned_ucast_eq take_bit_nat_eq_self)
qed

lemma unat_min_u32: "unat (min a b) = min (unat a) (unat b)" for a b :: u32
  by (simp add: min_def word_le_nat_alt)

section \<open>Powers of two and masks\<close>

lemma unat_2_power: "k < 64 \<Longrightarrow> unat (2 ^ k :: u64) = 2 ^ k"
proof -
  assume "k < 64"
  then have "(2 :: nat) ^ k < 2 ^ 64" by (rule power_strict_increasing) simp
  moreover have "(2 ^ k :: u64) = of_nat (2 ^ k)" by simp
  ultimately show ?thesis by (simp only: unat_of_nat) simp
qed

lemma unat_and_mask: "unat (x AND mask k) = unat x mod 2 ^ k" for x :: u64
  by (simp only: take_bit_eq_mask [symmetric] unsigned_take_bit_eq) (simp only: take_bit_eq_mod)

lemma power_2_minus_1: "2 ^ k - 1 = (mask k :: u64)"
  by (simp add: mask_eq_exp_minus_1)

lemma unat_small_u32: "k < 64 \<Longrightarrow> unat (of_nat k :: u32) = k"
  by (simp add: unat_of_nat)

lemma shr_chk_of_nat: "k < 64 \<Longrightarrow> shr_chk x (of_nat k) = Ok (drop_bit k x)" for x :: u64
  by (simp add: shr_chk_def unat_small_u32)

lemma shl_chk_of_nat: "k < 64 \<Longrightarrow> shl_chk 1 (of_nat k) = Ok (2 ^ k :: u64)"
  by (simp add: shl_chk_def unat_small_u32)

lemma sub_chk_of_nat: "k \<le> n \<Longrightarrow> n < 64 \<Longrightarrow> sub_chk (of_nat n) (of_nat k) = Ok (of_nat (n - k) :: u32)"
  by (simp add: sub_chk_def word_le_nat_alt unat_small_u32 of_nat_diff)

lemma sub_chk_2_power: "k < 64 \<Longrightarrow> sub_chk (2 ^ k) 1 = Ok (mask k :: u64)"
  by (simp add: sub_chk_def word_le_nat_alt unat_2_power power_2_minus_1)

lemma unat_drop_bit_u64: "unat (drop_bit k x) = unat x div 2 ^ k" for x :: u64
  by (simp only: unat_drop_bit_eq) (simp only: drop_bit_eq_div)

lemma and_mask_of_nat: "x AND mask k = of_nat (unat x mod 2 ^ k)" for x :: u64
proof -
  have "unat x mod 2 ^ k < 2 ^ 64"
    by (rule le_less_trans [OF mod_less_eq_dividend]) (use unsigned_less [of x] in simp)
  then have "unat (of_nat (unat x mod 2 ^ k) :: u64) = unat x mod 2 ^ k"
    by (simp only: unat_of_nat) simp
  then show ?thesis by (simp only: word_unat_eq_iff unat_and_mask)
qed

lemma and_single_bit:
  fixes x m :: u64
  assumes "\<And>n. bit m n \<longleftrightarrow> n = k"
  shows "x AND m \<noteq> 0 \<longleftrightarrow> bit x k"
proof
  assume "x AND m \<noteq> 0"
  then obtain n where "bit (x AND m) n" by (metis bit_0_eq bit_eqI bot_apply bot_bool_def)
  then show "bit x k" by (auto simp: bit_and_iff assms)
next
  assume "bit x k"
  then have "bit (x AND m) k" by (simp add: bit_and_iff assms)
  then show "x AND m \<noteq> 0" by (metis bit_0_eq bot_apply bot_bool_def)
qed

lemma and_bit_62: "x AND push_bit 62 1 \<noteq> 0 \<longleftrightarrow> bit x 62" for x :: u64
  by (rule and_single_bit) (unfold bit_push_bit_iff bit_1_iff, auto)

lemma and_1_odd: "x AND 1 \<noteq> 0 \<longleftrightarrow> odd (unat x)" for x :: u64
proof -
  have "x AND 1 \<noteq> 0 \<longleftrightarrow> bit x 0"
    by (rule and_single_bit) (unfold bit_1_iff, rule refl)
  also have "\<dots> \<longleftrightarrow> bit (unat x) 0" by (simp only: bit_unsigned_iff) auto
  finally show ?thesis by (simp only: bit_0)
qed

lemma unat_and_not_mask: "unat (x AND NOT (mask n)) = unat x div 2 ^ n * 2 ^ n" for x :: u64
proof -
  have d: "unat (drop_bit n x) = unat x div 2 ^ n"
    by (simp only: unat_drop_bit_eq) (simp only: drop_bit_eq_div)
  have "x AND NOT (mask n) = push_bit n (drop_bit n x)"
    by (rule bit_eqI) (auto simp: bit_simps)
  also have "\<dots> = of_nat (unat x div 2 ^ n * 2 ^ n)"
    by (simp add: push_bit_eq_mult d [symmetric])
  finally have "unat (x AND NOT (mask n)) = (unat x div 2 ^ n * 2 ^ n) mod 2 ^ 64"
    by (simp only: unat_of_nat) simp
  moreover have "unat x div 2 ^ n * 2 ^ n < 2 ^ 64"
    by (rule le_less_trans [OF div_times_less_eq_dividend]) (use unsigned_less [of x] in simp)
  ultimately show ?thesis by simp
qed

lemma unat_2_power_u32: "k < 32 \<Longrightarrow> unat (2 ^ k :: u32) = 2 ^ k"
proof -
  assume "k < 32"
  then have "(2 :: nat) ^ k < 2 ^ 32" by (rule power_strict_increasing) simp
  moreover have "(2 ^ k :: u32) = of_nat (2 ^ k)" by simp
  ultimately show ?thesis by (simp only: unat_of_nat) simp
qed

lemma ucast_2_power: "k < 32 \<Longrightarrow> (ucast (2 ^ k :: u32) :: u64) = 2 ^ k"
  by (simp add: word_unat_eq_iff unat_ucast_u32 unat_2_power_u32 unat_2_power)

section \<open>Slices\<close>

text \<open>\<open>xs.get(a..b)\<close>: \<open>None\<close> when the range does not lie inside the slice.\<close>

definition get_range :: "'a list \<Rightarrow> nat \<Rightarrow> nat \<Rightarrow> 'a list option" where
  "get_range xs a b = (if a \<le> b \<and> b \<le> length xs then Some (take (b - a) (drop a xs)) else None)"

text \<open>\<open>&xs[a..b]\<close>: a panic when the range does not lie inside the slice.\<close>

definition slice_chk :: "'a list \<Rightarrow> nat \<Rightarrow> nat \<Rightarrow> ('e, 'a list) outcome" where
  "slice_chk xs a b = (case get_range xs a b of None \<Rightarrow> Panic | Some s \<Rightarrow> Ok s)"

text \<open>\<open>xs.get(i)\<close>\<close>

definition get_at :: "'a list \<Rightarrow> nat \<Rightarrow> 'a option" where
  "get_at xs i = (if i < length xs then Some (xs ! i) else None)"

lemma get_range_Some_iff:
  "get_range xs a b = Some s \<longleftrightarrow> a \<le> b \<and> b \<le> length xs \<and> s = take (b - a) (drop a xs)"
  by (auto simp: get_range_def)

lemma get_range_length: "get_range xs a b = Some s \<Longrightarrow> length s = b - a"
  by (auto simp: get_range_Some_iff)

lemma get_range_append_left:
  "b \<le> length xs \<Longrightarrow> get_range (xs @ ys) a b = get_range xs a b"
  by (auto simp: get_range_def)

lemma get_range_append_right:
  "length xs \<le> a \<Longrightarrow> a \<le> b \<Longrightarrow>
     get_range (xs @ ys) a b = get_range ys (a - length xs) (b - length xs)"
  by (auto simp: get_range_def)

section \<open>Big-endian integers\<close>

text \<open>The number a byte string denotes, most significant byte first.\<close>

definition be_nat :: "u8 list \<Rightarrow> nat" where
  "be_nat bs = foldl (\<lambda>acc b. 256 * acc + unat b) 0 bs"

text \<open>\<open>from_be_bytes\<close>\<close>

definition from_be :: "u8 list \<Rightarrow> 'a::len word" where
  "from_be bs = of_nat (be_nat bs)"

text \<open>\<open>to_be_bytes\<close> of a value of \<open>n\<close> bytes.\<close>

fun to_be :: "nat \<Rightarrow> 'a::len word \<Rightarrow> u8 list" where
  "to_be 0 w = []"
| "to_be (Suc n) w = to_be n (drop_bit 8 w) @ [ucast w]"

lemma be_nat_Nil [simp]: "be_nat [] = 0"
  by (simp add: be_nat_def)

lemma be_nat_snoc [simp]: "be_nat (bs @ [b]) = 256 * be_nat bs + unat b"
  by (simp add: be_nat_def)

lemma be_nat_append: "be_nat (xs @ ys) = 256 ^ length ys * be_nat xs + be_nat ys"
proof (induction ys rule: rev_induct)
  case (snoc y ys)
  have "be_nat (xs @ ys @ [y]) = 256 * be_nat (xs @ ys) + unat y"
    using be_nat_snoc [of "xs @ ys" y] by simp
  with snoc show ?case by (simp add: algebra_simps)
qed simp

lemma be_nat_Cons: "be_nat (b # bs) = 256 ^ length bs * unat b + be_nat bs"
  using be_nat_append [of "[b]" bs] be_nat_snoc [of "[]" b] by simp

lemma unat_u8_less: "unat b < 256" for b :: u8
  using unsigned_less [of b] by simp

lemma be_nat_less: "be_nat bs < 256 ^ length bs"
proof (induction bs rule: rev_induct)
  case (snoc b bs)
  have "256 * be_nat bs + unat b < 256 * (be_nat bs + 1)"
    using unat_u8_less [of b] by simp
  also have "\<dots> \<le> 256 * 256 ^ length bs"
    using snoc by (intro mult_left_mono) auto
  finally show ?case by simp
qed simp

lemma length_to_be [simp]: "length (to_be n w) = n"
  by (induction n arbitrary: w) auto

lemma be_nat_to_be: "be_nat (to_be n w) = unat w mod 256 ^ n"
proof (induction n arbitrary: w)
  case (Suc n)
  have u: "unat (ucast w :: u8) = unat w mod 256"
    by (simp add: unsigned_ucast_eq take_bit_eq_mod)
  have d: "unat (drop_bit 8 w) = unat w div 256"
    by (simp only: unat_drop_bit_eq) (simp add: drop_bit_eq_div)
  have "be_nat (to_be (Suc n) w) = 256 * ((unat w div 256) mod 256 ^ n) + unat w mod 256"
    by (simp only: to_be.simps be_nat_snoc Suc d u)
  also have "\<dots> = unat w mod 256 ^ Suc n"
    by (simp add: mod_mult2_eq)
  finally show ?case .
qed simp

text \<open>Decoding an encoded value gives it back, for a type of exactly that many bytes.\<close>

lemma from_be_to_be [simp]:
  "LENGTH('a) \<le> 8 * n \<Longrightarrow> from_be (to_be n w) = w" for w :: "'a::len word"
proof -
  assume n: "LENGTH('a) \<le> 8 * n"
  have "unat w < 2 ^ LENGTH('a)" by (rule unsigned_less)
  also have "\<dots> \<le> 2 ^ (8 * n)" using n by (rule power_increasing) simp
  also have "(2 :: nat) ^ (8 * n) = 256 ^ n" by (simp add: power_mult)
  finally have "be_nat (to_be n w) = unat w" by (simp add: be_nat_to_be)
  then show ?thesis by (simp add: from_be_def)
qed

lemma unat_from_be:
  "8 * length bs \<le> LENGTH('a) \<Longrightarrow> unat (from_be bs :: 'a::len word) = be_nat bs"
proof -
  assume n: "8 * length bs \<le> LENGTH('a)"
  have "be_nat bs < 256 ^ length bs" by (rule be_nat_less)
  also have "(256 :: nat) ^ length bs = 2 ^ (8 * length bs)" by (simp add: power_mult)
  also have "\<dots> \<le> 2 ^ LENGTH('a)" using n by (rule power_increasing) simp
  finally show ?thesis by (simp add: from_be_def unat_of_nat)
qed

text \<open>A range read out of a slice as a big-endian integer; out of range it reads as zero.\<close>

definition be_word_at :: "nat \<Rightarrow> u8 list \<Rightarrow> nat \<Rightarrow> 'a::len word" where
  "be_word_at n data off =
     from_be (case get_range data off (off + n) of Some s \<Rightarrow> s | None \<Rightarrow> replicate n 0)"

lemma be_nat_replicate_zero [simp]: "be_nat (replicate n 0) = 0"
  by (induction n) (auto simp: be_nat_Cons)

lemma be_word_at_out_of_range: "length data < off + n \<Longrightarrow> be_word_at n data off = 0"
  by (simp add: be_word_at_def get_range_def from_be_def)

lemma be_word_at_encoded:
  assumes "LENGTH('a) \<le> 8 * n" and "length pre = off"
  shows "be_word_at n (pre @ to_be n (w :: 'a::len word) @ rest) off = w"
  using assms by (simp add: be_word_at_def get_range_def)

lemma replicate_4: "replicate 4 x = [x, x, x, x]"
  and replicate_8: "replicate 8 x = [x, x, x, x, x, x, x, x]"
  and replicate_2: "replicate 2 x = [x, x]"
  by (simp_all add: numeral_eq_Suc)

lemma be_word_at_in_range:
  "off + n \<le> length data \<Longrightarrow> be_word_at n data off = from_be (take n (drop off data))"
  by (simp add: be_word_at_def get_range_def)

lemma be_word_at_take:
  "off + n \<le> k \<Longrightarrow> be_word_at n (take k img) off = be_word_at n img off"
  by (auto simp: be_word_at_def get_range_def drop_take min_def)

text \<open>\<open>chunks_exact(8)\<close> mapped through \<open>u64::from_be_bytes\<close>: a table of big-endian entries.\<close>

function be_u64_table :: "u8 list \<Rightarrow> u64 list" where
  "be_u64_table bs =
     (if length bs < 8 then [] else from_be (take 8 bs) # be_u64_table (drop 8 bs))"
  by pat_completeness auto
termination
  by (relation "measure length") auto

declare be_u64_table.simps [simp del]

lemma be_u64_table_short: "length bs < 8 \<Longrightarrow> be_u64_table bs = []"
  by (simp add: be_u64_table.simps)

lemma be_u64_table_step:
  "8 \<le> length bs \<Longrightarrow> be_u64_table bs = from_be (take 8 bs) # be_u64_table (drop 8 bs)"
  by (simp add: be_u64_table.simps [of bs])

lemma length_be_u64_table: "length (be_u64_table bs) = length bs div 8"
proof (induction bs rule: be_u64_table.induct)
  case (1 bs)
  show ?case
  proof (cases "length bs < 8")
    case False
    with 1 show ?thesis by (simp add: be_u64_table_step)
  qed (simp add: be_u64_table_short)
qed

lemma nth_be_u64_table:
  "8 * i + 8 \<le> length bs \<Longrightarrow> be_u64_table bs ! i = from_be (take 8 (drop (8 * i) bs))"
proof (induction bs arbitrary: i rule: be_u64_table.induct)
  case (1 bs)
  then show ?case
    by (cases i) (auto simp: be_u64_table_step algebra_simps)
qed

lemma be_u64_table_encode:
  "be_u64_table (concat (map (to_be 8) ws)) = ws"
  by (induction ws) (simp_all add: be_u64_table_short be_u64_table_step)

section \<open>Writing into a buffer\<close>

text \<open>\<open>xs[off..off + bs.len()].copy_from_slice(bs)\<close>, for a range inside \<open>xs\<close>.\<close>

definition put :: "'a list \<Rightarrow> nat \<Rightarrow> 'a list \<Rightarrow> 'a list" where
  "put xs off bs = take off xs @ bs @ drop (off + length bs) xs"

lemma length_put [simp]: "off + length bs \<le> length xs \<Longrightarrow> length (put xs off bs) = length xs"
  by (simp add: put_def)

lemma put_take: "n \<le> off \<Longrightarrow> off \<le> length xs \<Longrightarrow> take n (put xs off bs) = take n xs"
  by (simp add: put_def)

lemma take_two:
  assumes "p + 2 \<le> length xs"
  shows "take 2 (drop p xs) = [xs ! p, xs ! Suc p]"
proof -
  have "drop p xs = xs ! p # xs ! Suc p # drop (Suc (Suc p)) xs"
    using assms by (simp add: Cons_nth_drop_Suc)
  then show ?thesis by simp
qed

lemma be_word_at_put_same:
  "length bs = n \<Longrightarrow> off + n \<le> length xs \<Longrightarrow> be_word_at n (put xs off bs) off = from_be bs"
  by (simp add: be_word_at_def get_range_def put_def)

lemma region_put_other:
  assumes "a + n \<le> off \<or> off + length bs \<le> a" and "off + length bs \<le> length xs"
  shows "take n (drop a (put xs off bs)) = take n (drop a xs)"
  using assms(1)
proof
  assume "a + n \<le> off"
  then have "take n (drop a (put xs off bs)) = take n (drop a (take off (put xs off bs)))"
    by (simp add: drop_take min_absorb1)
  also have "take off (put xs off bs) = take off xs" using assms(2) by (simp add: put_def)
  also have "take n (drop a (take off xs)) = take n (drop a xs)"
    using \<open>a + n \<le> off\<close> by (simp add: drop_take min_absorb1)
  finally show ?thesis .
next
  assume "off + length bs \<le> a"
  with assms(2) show ?thesis by (simp add: put_def)
qed

lemma be_word_at_put_other:
  assumes "off' + n \<le> off \<or> off + length bs \<le> off'" and "off + length bs \<le> length xs"
  shows "be_word_at n (put xs off bs) off' = be_word_at n xs off'"
  using region_put_other [OF assms] assms(2) by (simp add: be_word_at_def get_range_def)

lemma be_word_at_append: "off + n \<le> length xs \<Longrightarrow> be_word_at n (xs @ ys) off = be_word_at n xs off"
  by (simp add: be_word_at_def get_range_append_left)

text \<open>
  A sequence of writes at given offsets, and what it leaves in the buffer: every range that was
  written last, and every range that was never written.
\<close>

definition writes :: "(nat \<times> 'a list) list \<Rightarrow> 'a list \<Rightarrow> 'a list" where
  "writes ws xs = foldl (\<lambda>ys (off, bs). put ys off bs) xs ws"

definition writes_fit :: "nat \<Rightarrow> (nat \<times> 'a list) list \<Rightarrow> bool" where
  "writes_fit n ws \<longleftrightarrow> list_all (\<lambda>(off, bs). off + length bs \<le> n) ws"

definition away_from :: "nat \<Rightarrow> nat \<Rightarrow> nat \<times> 'a list \<Rightarrow> bool" where
  "away_from a n w \<longleftrightarrow> a + n \<le> fst w \<or> fst w + length (snd w) \<le> a"

lemma writes_Nil [simp]: "writes [] xs = xs"
  and writes_snoc: "writes (ws @ [(off, bs)]) xs = put (writes ws xs) off bs"
  by (simp_all add: writes_def)

lemma length_writes [simp]: "writes_fit (length xs) ws \<Longrightarrow> length (writes ws xs) = length xs"
  by (induction ws rule: rev_induct) (auto simp: writes_snoc writes_fit_def)

lemma region_untouched:
  "writes_fit (length xs) ws \<Longrightarrow> list_all (away_from a n) ws \<Longrightarrow>
     take n (drop a (writes ws xs)) = take n (drop a xs)"
proof (induction ws rule: rev_induct)
  case (snoc w ws)
  obtain off bs where w: "w = (off, bs)" by fastforce
  from snoc.prems have f: "writes_fit (length xs) ws" "off + length bs \<le> length xs"
    "list_all (away_from a n) ws" "away_from a n (off, bs)"
    by (auto simp: writes_fit_def w)
  show ?case
    unfolding w writes_snoc
    using f by (subst region_put_other) (simp_all add: snoc.IH [OF f(1,3)], simp add: away_from_def)
qed simp

lemma region_written:
  assumes "writes_fit (length xs) (ws @ (off, bs) # vs)" and "list_all (away_from off (length bs)) vs"
  shows "take (length bs) (drop off (writes (ws @ (off, bs) # vs) xs)) = bs"
proof -
  let ?ys = "put (writes ws xs) off bs"
  have e: "writes (ws @ (off, bs) # vs) xs = writes vs ?ys" by (simp add: writes_def)
  have l: "length (writes ws xs) = length xs" "off + length bs \<le> length xs"
    using assms(1) by (auto simp: writes_fit_def)
  then have "writes_fit (length ?ys) vs" using assms(1) by (simp add: writes_fit_def)
  from region_untouched [OF this assms(2)] have
    "take (length bs) (drop off (writes vs ?ys)) = take (length bs) (drop off ?ys)" .
  also have "\<dots> = bs" using l by (simp add: put_def)
  finally show ?thesis by (simp only: e)
qed

text \<open>Writes in increasing order do not overlap, so each of them can be read back.\<close>

definition writes_ascend :: "(nat \<times> 'a list) list \<Rightarrow> bool" where
  "writes_ascend ws \<longleftrightarrow> sorted_wrt (\<lambda>v w. fst v + length (snd v) \<le> fst w) ws"

lemma region_of_write:
  assumes "writes_fit (length xs) ws" and "writes_ascend ws" and "(off, bs) \<in> set ws"
  shows "take (length bs) (drop off (writes ws xs)) = bs"
proof -
  from assms(3) obtain us vs where ws: "ws = us @ (off, bs) # vs" by (meson split_list)
  have "list_all (away_from off (length bs)) vs"
    using assms(2) by (auto simp: ws writes_ascend_def sorted_wrt_append list_all_iff away_from_def)
  with assms(1) show ?thesis unfolding ws by (rule region_written)
qed

lemma word_of_write:
  assumes "writes_fit (length xs) ws" and "writes_ascend ws" and "(off, to_be n w) \<in> set ws"
    and "LENGTH('a) \<le> 8 * n"
  shows "be_word_at n (writes ws xs) off = (w :: 'a::len word)"
proof -
  have "off + n \<le> length xs" using assms(1,3) by (auto simp: writes_fit_def list_all_iff)
  then show ?thesis
    using region_of_write [OF assms(1-3)] assms(1,4) by (simp add: be_word_at_in_range)
qed

lemma word_untouched:
  assumes "writes_fit (length xs) ws" and "list_all (away_from off n) ws"
  shows "be_word_at n (writes ws xs) off = be_word_at n xs off"
  using region_untouched [OF assms] assms(1) by (simp add: be_word_at_def get_range_def)

lemma region_split:
  "take (m + n) (drop a xs) = take m (drop a xs) @ take n (drop (a + m) xs)"
  by (simp add: take_add add.commute)

lemma be_word_at_zeros: "be_word_at n (replicate k 0) off = 0"
  by (simp add: be_word_at_def get_range_def from_be_def min_def)

text \<open>A table whose entries behind the first are zero.\<close>

lemma be_u64_table_zeros: "be_u64_table (replicate (8 * n) 0) = replicate n 0"
proof (induction n)
  case (Suc n)
  have "replicate (8 * Suc n) (0 :: u8) = replicate 8 0 @ replicate (8 * n) 0"
    by (simp flip: replicate_add)
  moreover have "be_u64_table (replicate 8 0 @ replicate (8 * n) 0) = 0 # be_u64_table (replicate (8 * n) 0)"
    by (simp add: be_u64_table_step from_be_def)
  ultimately show ?case using Suc by simp
qed (simp add: be_u64_table_short)

lemma be_u64_table_first:
  "be_u64_table (to_be 8 w @ replicate (8 * n) 0) = w # replicate n 0"
  by (simp add: be_u64_table_step be_u64_table_zeros)

section \<open>Filtering over blocks\<close>

lemma map_filter_append: "List.map_filter f (xs @ ys) = List.map_filter f xs @ List.map_filter f ys"
  by (simp add: List.map_filter_def)

lemma map_filter_upt_blocks:
  "List.map_filter f [0..<k * n] = concat (map (\<lambda>i. List.map_filter (\<lambda>j. f (i * n + j)) [0..<n]) [0..<k])"
proof (induction k)
  case (Suc k)
  have "[0..<Suc k * n] = [0..<k * n] @ map (\<lambda>j. k * n + j) [0..<n]"
    using upt_add_eq_append [of 0 "k * n" n] map_add_upt [of "k * n" n] by (simp add: add.commute)
  moreover have "List.map_filter f (map (\<lambda>j. k * n + j) [0..<n]) = List.map_filter (\<lambda>j. f (k * n + j)) [0..<n]"
    by (simp add: List.map_filter_def filter_map comp_def)
  ultimately show ?case using Suc by (simp add: map_filter_append)
qed (simp add: List.map_filter_def)

lemma map_filter_nth: "List.map_filter f xs = List.map_filter (\<lambda>j. f (xs ! j)) [0..<length xs]"
proof -
  have "List.map_filter f (map ((!) xs) [0..<length xs]) = List.map_filter (\<lambda>j. f (xs ! j)) [0..<length xs]"
    by (simp add: List.map_filter_def filter_map comp_def)
  then show ?thesis by (simp add: map_nth)
qed

lemma map_filter_cong: "(\<And>x. x \<in> set xs \<Longrightarrow> f x = g x) \<Longrightarrow> List.map_filter f xs = List.map_filter g xs"
  by (induction xs) (auto simp: List.map_filter_simps split: option.split)

end
