(* ===== verification/Utf8.thy ===== *)
theory Utf8
  imports Qcow2_Prelude
begin

text \<open>
  \<open>String::from_utf8_lossy\<close> of the standard library, which turns every name the library reads out
  of an image (backing file, backing format, snapshot ids and names) into a string: the scanner of
  \<open>Utf8Chunks\<close>, the replacement of each ill-formed piece by U+FFFD, and the facts the callers need.
  A Rust \<open>String\<close> is its UTF-8 bytes.
\<close>

type_synonym rstring = "u8 list"

section \<open>The scanner\<close>

definition utf8_cont :: "u8 \<Rightarrow> bool" where
  "utf8_cont b \<longleftrightarrow> b AND 0xC0 = 0x80"

text \<open>The byte at an index, or 0 past the end (\<open>safe_get\<close>).\<close>

definition safe_get :: "u8 list \<Rightarrow> nat \<Rightarrow> u8" where
  "safe_get bs i = (if i < length bs then bs ! i else 0)"

text \<open>The length of the sequence a first byte announces, 0 for a byte that starts none.\<close>

definition utf8_char_width :: "u8 \<Rightarrow> nat" where
  "utf8_char_width b =
     (if b < 0x80 then 1
      else if 0xC2 \<le> b \<and> b \<le> 0xDF then 2
      else if 0xE0 \<le> b \<and> b \<le> 0xEF then 3
      else if 0xF0 \<le> b \<and> b \<le> 0xF4 then 4
      else 0)"

text \<open>The second bytes that rule out overlong forms, surrogates and values above U+10FFFF.\<close>

definition utf8_second_ok :: "u8 \<Rightarrow> u8 \<Rightarrow> bool" where
  "utf8_second_ok b c \<longleftrightarrow>
     (b = 0xE0 \<and> 0xA0 \<le> c \<and> c \<le> 0xBF) \<or>
     (0xE1 \<le> b \<and> b \<le> 0xEC \<and> 0x80 \<le> c \<and> c \<le> 0xBF) \<or>
     (b = 0xED \<and> 0x80 \<le> c \<and> c \<le> 0x9F) \<or>
     (0xEE \<le> b \<and> b \<le> 0xEF \<and> 0x80 \<le> c \<and> c \<le> 0xBF) \<or>
     (b = 0xF0 \<and> 0x90 \<le> c \<and> c \<le> 0xBF) \<or>
     (0xF1 \<le> b \<and> b \<le> 0xF3 \<and> 0x80 \<le> c \<and> c \<le> 0xBF) \<or>
     (b = 0xF4 \<and> 0x80 \<le> c \<and> c \<le> 0x8F)"

text \<open>
  One sequence with first byte \<open>b\<close>: how many of the following bytes it takes, and whether it is
  well-formed; an ill-formed one takes the longest prefix that could have been continued.
\<close>

definition utf8_scan :: "u8 \<Rightarrow> u8 list \<Rightarrow> nat \<times> bool" where
  "utf8_scan b r =
     (let w = utf8_char_width b in
      if w = 1 then (0, True)
      else if w = 2 then
        (if utf8_cont (safe_get r 0) then (1, True) else (0, False))
      else if w = 3 then
        (if \<not> utf8_second_ok b (safe_get r 0) then (0, False)
         else if \<not> utf8_cont (safe_get r 1) then (1, False) else (2, True))
      else if w = 4 then
        (if \<not> utf8_second_ok b (safe_get r 0) then (0, False)
         else if \<not> utf8_cont (safe_get r 1) then (1, False)
         else if \<not> utf8_cont (safe_get r 2) then (2, False) else (3, True))
      else (0, False))"

section \<open>Lossy decoding\<close>

text \<open>U+FFFD in UTF-8.\<close>

definition replacement_char :: rstring where
  "replacement_char = [0xEF, 0xBF, 0xBD]"

function from_utf8_lossy :: "u8 list \<Rightarrow> rstring" where
  "from_utf8_lossy [] = []"
| "from_utf8_lossy (b # r) =
     (case utf8_scan b r of
        (k, True) \<Rightarrow> b # take k r @ from_utf8_lossy (drop k r)
      | (k, False) \<Rightarrow> replacement_char @ from_utf8_lossy (drop k r))"
  by pat_completeness auto
termination
  by (relation "measure length") auto

text \<open>A well-formed string.\<close>

function utf8_valid :: "u8 list \<Rightarrow> bool" where
  "utf8_valid [] = True"
| "utf8_valid (b # r) =
     (case utf8_scan b r of (k, v) \<Rightarrow> v \<and> utf8_valid (drop k r))"
  by pat_completeness auto
termination
  by (relation "measure length") auto

declare from_utf8_lossy.simps(2) [simp del] utf8_valid.simps(2) [simp del]

section \<open>What decoding keeps\<close>

lemma utf8_second_okD: "utf8_second_ok b c \<Longrightarrow> c \<noteq> 0"
  by (auto simp: utf8_second_ok_def)

lemma utf8_cont_0 [simp]: "\<not> utf8_cont 0"
  by (simp add: utf8_cont_def)

lemma safe_get_nonzero: "safe_get bs i \<noteq> 0 \<Longrightarrow> i < length bs"
  by (auto simp: safe_get_def split: if_splits)

lemma safe_get_append: "i < length xs \<Longrightarrow> safe_get (xs @ ys) i = safe_get xs i"
  by (simp add: safe_get_def nth_append)

lemma safe_get_take: "i < n \<Longrightarrow> safe_get (take n xs @ ys) i = safe_get xs i" if "n \<le> length xs"
  using that by (simp add: safe_get_def nth_append)

lemma utf8_cont_in_range: "utf8_cont (safe_get bs i) \<Longrightarrow> i < length bs"
  by (rule safe_get_nonzero) (auto intro: notI)

lemma utf8_second_in_range: "utf8_second_ok b (safe_get bs i) \<Longrightarrow> i < length bs"
  by (rule safe_get_nonzero) (rule utf8_second_okD)

text \<open>A sequence stays inside the string it is scanned in.\<close>

lemma utf8_scan_length: "utf8_scan b r = (k, v) \<Longrightarrow> k \<le> length r"
  by (auto simp: utf8_scan_def Let_def Suc_le_eq split: if_splits
      dest!: utf8_cont_in_range utf8_second_in_range)

text \<open>A well-formed sequence is recognised whatever follows it.\<close>

lemma utf8_scan_prefix:
  assumes "utf8_scan b r = (k, True)"
  shows "utf8_scan b (take k r @ s) = (k, True)"
proof -
  have "k \<le> length r" using assms by (rule utf8_scan_length)
  then have "\<And>i. i < k \<Longrightarrow> safe_get (take k r @ s) i = safe_get r i"
    by (rule safe_get_take)
  with assms show ?thesis
    by (auto simp: utf8_scan_def Let_def split: if_splits)
qed

lemma utf8_valid_scanned:
  assumes "utf8_scan b r = (k, True)"
  shows "utf8_valid (b # take k r @ s) \<longleftrightarrow> utf8_valid s"
  using utf8_scan_prefix [OF assms, of s] utf8_scan_length [OF assms]
  by (simp add: utf8_valid.simps)

text \<open>Decoding does not change a well-formed string.\<close>

lemma from_utf8_lossy_valid: "utf8_valid bs \<Longrightarrow> from_utf8_lossy bs = bs"
proof (induction bs rule: utf8_valid.induct)
  case (2 b r)
  then obtain k where k: "utf8_scan b r = (k, True)" and "utf8_valid (drop k r)"
    by (auto simp: utf8_valid.simps)
  with "2.IH" [OF k [symmetric]] show ?case
    by (simp add: from_utf8_lossy.simps)
qed simp

text \<open>The result of decoding is always well-formed, so it is a legal \<open>String\<close>.\<close>

lemma utf8_valid_replacement: "utf8_valid (replacement_char @ s) \<longleftrightarrow> utf8_valid s"
proof -
  have "utf8_scan 0xEF [0xBF, 0xBD] = (2, True)"
    by (simp add: utf8_scan_def utf8_char_width_def utf8_second_ok_def utf8_cont_def safe_get_def)
  from utf8_valid_scanned [OF this, of s] show ?thesis
    by (simp add: replacement_char_def)
qed

lemma from_utf8_lossy_is_valid: "utf8_valid (from_utf8_lossy bs)"
proof (induction bs rule: from_utf8_lossy.induct)
  case (2 b r)
  obtain k v where k: "utf8_scan b r = (k, v)" by fastforce
  show ?case
  proof (cases v)
    case True
    with k 2 show ?thesis by (simp add: from_utf8_lossy.simps utf8_valid_scanned)
  next
    case False
    with k 2 show ?thesis by (simp add: from_utf8_lossy.simps utf8_valid_replacement)
  qed
qed simp

lemma from_utf8_lossy_idem: "from_utf8_lossy (from_utf8_lossy bs) = from_utf8_lossy bs"
  by (rule from_utf8_lossy_valid [OF from_utf8_lossy_is_valid])

text \<open>ASCII text is well-formed.\<close>

lemma utf8_valid_ascii: "list_all (\<lambda>b. b < 0x80) bs \<Longrightarrow> utf8_valid bs"
  by (induction bs) (auto simp: utf8_valid.simps utf8_scan_def utf8_char_width_def)

text \<open>The bytes of a string literal.\<close>

definition str :: "string \<Rightarrow> rstring" where
  "str s = map of_char s"

lemma from_utf8_lossy_ascii: "list_all (\<lambda>b. b < 0x80) s \<Longrightarrow> from_utf8_lossy s = s"
  by (rule from_utf8_lossy_valid [OF utf8_valid_ascii])

lemma str_inject [simp]: "str s = str t \<longleftrightarrow> s = t"
proof
  have inj: "inj (of_char :: char \<Rightarrow> u8)"
  proof (rule injI)
    fix c d :: char
    assume eq: "(of_char c :: u8) = of_char d"
    have u: "unat (of_char c :: u8) = of_char c" for c :: char
    proof -
      have "(of_char c :: nat) < 256" by (rule nat_of_char_less_256)
      then have "unat (of_nat (of_char c) :: u8) = of_char c" by (simp only: unat_of_nat) simp
      then show ?thesis by (simp only: of_nat_of_char)
    qed
    from eq have "(of_char c :: nat) = of_char d" unfolding u [symmetric] by simp
    then show "c = d" by simp
  qed
  assume "str s = str t"
  then show "s = t" using inj by (simp add: str_def inj_map_eq_map)
qed simp

end
