(* ===== verification/Device.thy ===== *)
theory Device
  imports Qcow2_Prelude
begin

text \<open>
  The byte sources the library reads from: the \<open>Read + Seek\<close> interface of
  \<open>ReadSeekSend\<close> (core/src/lib.rs) as a table of operations, the files and cursors of the
  standard library, the loops that run on such a source (\<open>read_window\<close>, \<open>read_exact\<close>), and the
  two contracts a source may satisfy, as locales: \<open>read_seek\<close> (it never panics and never returns
  more than asked) and \<open>byte_source\<close> (it also serves the bytes of a fixed content, in pieces of
  any size).
\<close>

section \<open>The interface\<close>

text \<open>The kinds of \<open>std::io::Error\<close> that occur; \<open>OtherIo\<close> is any error of the device.\<close>

datatype io_error = UnexpectedEof | InvalidData | InvalidInput | NotFound | OtherIo nat

datatype seek_from = SeekStart u64 | SeekCurrent i64 | SeekEnd i64

text \<open>
  A \<open>dyn ReadSeekSend\<close>: the two operations of the trait object.  \<open>dev_read n\<close> is a call of
  \<open>read\<close> with a buffer of \<open>n\<close> bytes; it returns the bytes written to the front of the buffer, so
  the length of the list is the count the Rust method returns.
\<close>

record 'b read_seek_ops =
  dev_read :: "nat \<Rightarrow> ('b, io_error, u8 list) op"
  dev_seek :: "seek_from \<Rightarrow> ('b, io_error, u64) op"

section \<open>The loops over a source\<close>

text \<open>
  \<open>read_window\<close>: fill a buffer of \<open>n\<close> bytes until it is full or the source is at its end, and
  return the bytes filled.  The first branch ends the \<open>while\<close>, the empty read is the \<open>0 => break\<close>.
  A source that claims more bytes than the buffer holds breaks the contract of \<open>Read\<close>; the
  slicing of the buffer by the claimed count then panics.
\<close>

function read_window :: "'b read_seek_ops \<Rightarrow> nat \<Rightarrow> ('b, io_error, u8 list) op" where
  "read_window V n =
     (if n = 0 then st_ret []
      else st_bind (dev_read V n) (\<lambda>bs.
        if bs = [] then st_ret []
        else if n < length bs then st_panic
        else st_bind (read_window V (n - length bs)) (\<lambda>cs. st_ret (bs @ cs))))"
  by pat_completeness auto
termination
  by (relation "measure (\<lambda>(V, n). n)") auto

text \<open>
  \<open>read_exact\<close> of the standard library: the same loop, but the end of the source before the
  buffer is full is an error.
\<close>

function read_exact :: "'b read_seek_ops \<Rightarrow> nat \<Rightarrow> ('b, io_error, u8 list) op" where
  "read_exact V n =
     (if n = 0 then st_ret []
      else st_bind (dev_read V n) (\<lambda>bs.
        if bs = [] then st_err UnexpectedEof
        else if n < length bs then st_panic
        else st_bind (read_exact V (n - length bs)) (\<lambda>cs. st_ret (bs @ cs))))"
  by pat_completeness auto
termination
  by (relation "measure (\<lambda>(V, n). n)") auto

declare read_window.simps [simp del] read_exact.simps [simp del]

text \<open>The pair of calls \<open>seek(SeekFrom::Start(off))?; read_exact(buf)?\<close>.\<close>

definition read_exact_at :: "'b read_seek_ops \<Rightarrow> u64 \<Rightarrow> nat \<Rightarrow> ('b, io_error, u8 list) op" where
  "read_exact_at V off n = st_bind (dev_seek V (SeekStart off)) (\<lambda>_. read_exact V n)"

text \<open>The pair \<open>seek(SeekFrom::Start(off))?\<close> and a loop that reads until the end of the source.\<close>

definition read_window_at :: "'b read_seek_ops \<Rightarrow> u64 \<Rightarrow> nat \<Rightarrow> ('b, io_error, u8 list) op" where
  "read_window_at V off n = st_bind (dev_seek V (SeekStart off)) (\<lambda>_. read_window V n)"

text \<open>
  \<open>read_exact\<close> is \<open>read_window\<close> followed by the test that the buffer is full: the two loops
  make the same calls and differ in what they make of the end of the source.
\<close>

lemma read_exact_read_window:
  "read_exact V n =
     st_bind (read_window V n) (\<lambda>bs. if length bs = n then st_ret bs else st_err UnexpectedEof)"
proof (induction n rule: less_induct)
  case (less n)
  show ?case
  proof (cases "n = 0")
    case True
    then show ?thesis
      by (simp add: read_exact.simps read_window.simps fun_eq_iff st_bind_def st_simps)
  next
    case False
    have step: "st_bind (read_exact V (n - length bs)) (\<lambda>cs. st_ret (bs @ cs)) s
        = st_bind (st_bind (read_window V (n - length bs)) (\<lambda>cs. st_ret (bs @ cs)))
            (\<lambda>bs. if length bs = n then st_ret bs else st_err UnexpectedEof) s"
      if "bs \<noteq> []" and "length bs \<le> n" for bs s
    proof -
      have "n - length bs < n" using that False by simp
      from less [OF this] show ?thesis
        using that by (auto simp: st_bind_def st_simps split: prod.split outcome.split)
    qed
    show ?thesis
      unfolding read_exact.simps [of V n] read_window.simps [of V n] st_bind_assoc
      using False step
      by (auto intro!: ext st_bind_cong simp: st_simps st_bind_assoc)
  qed
qed

section \<open>The first contract: total and bounded\<close>

text \<open>
  What every implementation of \<open>Read + Seek\<close> promises: on a state in the invariant, a read or an
  absolute seek returns or fails, it does not panic, and a read never returns more bytes than the
  buffer holds.
\<close>

locale read_seek =
  fixes V :: "'b read_seek_ops"
    and inv :: "'b \<Rightarrow> bool"
  assumes read_safe: "op_safe inv (dev_read V n) (\<lambda>bs. length bs \<le> n)"
    and seek_safe: "op_safe inv (dev_seek V (SeekStart off)) (\<lambda>_. True)"
begin

text \<open>Both loops keep the contract: they are total, and they return what they promise.\<close>

lemma read_window_safe: "op_safe inv (read_window V n) (\<lambda>bs. length bs \<le> n)"
proof (induction n rule: less_induct)
  case (less n)
  show ?case
  proof (cases "n = 0")
    case True
    then show ?thesis by (simp add: read_window.simps op_safe_ret)
  next
    case False
    have rest: "op_safe inv (st_bind (read_window V (n - length bs)) (\<lambda>cs. st_ret (bs @ cs)))
        (\<lambda>bs. length bs \<le> n)" if "bs \<noteq> []" and "length bs \<le> n" for bs
      using that False
      by (intro op_safe_bind [OF less.IH] op_safe_ret) (auto simp: neq_Nil_conv)
    show ?thesis
      unfolding read_window.simps [of V n]
      using False rest
      by (auto intro!: op_safe_if op_safe_bind [OF read_safe] op_safe_ret)
  qed
qed

lemma read_exact_safe: "op_safe inv (read_exact V n) (\<lambda>bs. length bs = n)"
proof (induction n rule: less_induct)
  case (less n)
  show ?case
  proof (cases "n = 0")
    case True
    then show ?thesis by (simp add: read_exact.simps op_safe_ret)
  next
    case False
    have rest: "op_safe inv (st_bind (read_exact V (n - length bs)) (\<lambda>cs. st_ret (bs @ cs)))
        (\<lambda>bs. length bs = n)" if "bs \<noteq> []" and "length bs \<le> n" for bs
      using that False
      by (intro op_safe_bind [OF less.IH] op_safe_ret) (auto simp: neq_Nil_conv)
    show ?thesis
      unfolding read_exact.simps [of V n]
      using False rest
      by (auto intro!: op_safe_if op_safe_bind [OF read_safe] op_safe_ret op_safe_err)
  qed
qed

lemma read_exact_at_safe: "op_safe inv (read_exact_at V off n) (\<lambda>bs. length bs = n)"
  unfolding read_exact_at_def by (rule op_safe_bind [OF seek_safe read_exact_safe])

lemma read_window_at_safe: "op_safe inv (read_window_at V off n) (\<lambda>bs. length bs \<le> n)"
  unfolding read_window_at_def by (rule op_safe_bind [OF seek_safe read_window_safe])

end

section \<open>The second contract: a source of fixed bytes\<close>

text \<open>
  A source in working order: it has a content and a position; a read returns a piece of the
  content at the position, of any size the source likes but not empty before the end; a seek
  moves the position.  Positions above \<open>i64::MAX\<close> may be refused (a file does) or taken (a cursor
  does), and lie past the end of every content.
\<close>

locale byte_source = read_seek V inv
  for V :: "'b read_seek_ops" and inv :: "'b \<Rightarrow> bool" +
  fixes content :: "'b \<Rightarrow> u8 list"
    and pos :: "'b \<Rightarrow> nat"
  assumes content_bound: "inv b \<Longrightarrow> length (content b) < isize_limit"
    and read_piece: "inv b \<Longrightarrow> \<exists>k b'. dev_read V n b = (Ok (take k (drop (pos b) (content b))), b')
        \<and> k \<le> n \<and> (0 < n \<longrightarrow> pos b < length (content b) \<longrightarrow> 0 < k)
        \<and> content b' = content b \<and> pos b' = pos b + min k (length (content b) - pos b)"
    and seek_near: "inv b \<Longrightarrow> unat off < isize_limit \<Longrightarrow>
        \<exists>b'. dev_seek V (SeekStart off) b = (Ok off, b') \<and> content b' = content b
          \<and> pos b' = unat off"
    and seek_far: "inv b \<Longrightarrow> isize_limit \<le> unat off \<Longrightarrow>
        \<exists>r b'. dev_seek V (SeekStart off) b = (r, b') \<and> content b' = content b
          \<and> (case r of Ok _ \<Rightarrow> isize_limit \<le> pos b' | _ \<Rightarrow> True)"
begin

text \<open>Two successive pieces of a list are one piece.\<close>

lemma take_piece:
  assumes "bs = take (length bs) (drop p xs)" and "length bs \<le> n"
  shows "bs @ take (n - length bs) (drop (p + length bs) xs) = take n (drop p xs)"
proof -
  have "take n (drop p xs) = take (length bs + (n - length bs)) (drop p xs)"
    using assms(2) by simp
  also have "\<dots> = take (length bs) (drop p xs) @ take (n - length bs) (drop (p + length bs) xs)"
    by (simp add: take_add add.commute)
  finally show ?thesis using assms(1) by simp
qed

lemma read_pieceE:
  assumes "inv b"
  obtains bs b' where "dev_read V n b = (Ok bs, b')" and "inv b'" and "length bs \<le> n"
    and "bs = take (length bs) (drop (pos b) (content b))"
    and "0 < n \<Longrightarrow> pos b < length (content b) \<Longrightarrow> bs \<noteq> []"
    and "content b' = content b" and "pos b' = pos b + length bs"
proof -
  from read_piece [OF assms, of n] obtain k b' where
    r: "dev_read V n b = (Ok (take k (drop (pos b) (content b))), b')" and k: "k \<le> n"
    and ne: "0 < n \<longrightarrow> pos b < length (content b) \<longrightarrow> 0 < k"
    and c: "content b' = content b" and p: "pos b' = pos b + min k (length (content b) - pos b)"
    by blast
  have "inv b'" using op_safeD(2) [OF read_safe assms r] .
  with r k ne c p show ?thesis
    by (intro that [of "take k (drop (pos b) (content b))" b']) (auto simp: min_def)
qed

text \<open>
  The piecewise reads of a loop add up: \<open>read_window\<close> returns exactly the bytes a single large
  read would, whatever the source's piece sizes.
\<close>

lemma read_window_spec:
  assumes "inv b"
  shows "\<exists>b'. read_window V n b = (Ok (take n (drop (pos b) (content b))), b') \<and> inv b'
    \<and> content b' = content b \<and> pos b' = pos b + min n (length (content b) - pos b)"
  using assms
proof (induction n arbitrary: b rule: less_induct)
  case (less n)
  show ?case
  proof (cases "n = 0")
    case True
    with less.prems show ?thesis by (simp add: read_window.simps st_simps)
  next
    case False
    from read_pieceE [OF less.prems, of n] obtain bs b1 where
      r: "dev_read V n b = (Ok bs, b1)" and i1: "inv b1" and l: "length bs \<le> n"
      and bs: "bs = take (length bs) (drop (pos b) (content b))"
      and ne: "pos b < length (content b) \<Longrightarrow> bs \<noteq> []"
      and c1: "content b1 = content b" and p1: "pos b1 = pos b + length bs"
      using False by (metis neq0_conv)
    show ?thesis
    proof (cases "bs = []")
      case True
      with ne have "length (content b) \<le> pos b" by force
      with True r False i1 c1 p1 show ?thesis
        by (simp add: read_window.simps [of V n] st_bind_def st_simps)
    next
      case bsne: False
      then have "n - length bs < n" using False by simp
      from less.IH [OF this i1] obtain b2 where
        w: "read_window V (n - length bs) b1
              = (Ok (take (n - length bs) (drop (pos b1) (content b1))), b2)"
        and i2: "inv b2" and c2: "content b2 = content b1"
        and p2: "pos b2 = pos b1 + min (n - length bs) (length (content b1) - pos b1)"
        by blast
      have "length bs \<le> length (content b) - pos b"
        using arg_cong [OF bs, of length] by simp
      with p1 p2 c1 l have "pos b2 = pos b + min n (length (content b) - pos b)" by simp
      with bsne r False l w i2 c1 c2 take_piece [OF bs l] p1 show ?thesis
        by (simp add: read_window.simps [of V n] st_bind_def st_simps)
    qed
  qed
qed

lemma read_exact_spec:
  assumes "inv b"
  shows "\<exists>b'. read_exact V n b =
      (if n = 0 \<or> pos b + n \<le> length (content b) then Ok (take n (drop (pos b) (content b)))
       else Err UnexpectedEof, b') \<and> inv b'
    \<and> content b' = content b \<and> pos b' = pos b + min n (length (content b) - pos b)"
  using read_window_spec [OF assms, of n]
  by (auto simp: read_exact_read_window st_bind_def st_simps)

text \<open>
  A positioned read: a window at any offset is the content from there, and an exact read succeeds
  exactly when the range lies inside the content.
\<close>

lemma read_window_at_spec:
  assumes "inv b" and "unat off < isize_limit"
  shows "\<exists>b'. read_window_at V off n b = (Ok (take n (drop (unat off) (content b))), b')
    \<and> inv b' \<and> content b' = content b"
proof -
  from seek_near [OF assms] obtain b1 where
    s: "dev_seek V (SeekStart off) b = (Ok off, b1)" "content b1 = content b" "pos b1 = unat off"
    by blast
  moreover from s(1) have "inv b1" by (rule op_safeD(2) [OF seek_safe assms(1)])
  ultimately show ?thesis
    using read_window_spec [of b1 n] by (auto simp: read_window_at_def st_bind_def)
qed

lemma read_exact_at_Ok:
  assumes "inv b" and "unat off + n \<le> length (content b)"
  shows "\<exists>b'. read_exact_at V off n b = (Ok (take n (drop (unat off) (content b))), b')
    \<and> inv b' \<and> content b' = content b"
proof -
  from assms(2) content_bound [OF assms(1)] have "unat off < isize_limit" by simp
  from seek_near [OF assms(1) this] obtain b1 where
    s: "dev_seek V (SeekStart off) b = (Ok off, b1)" "content b1 = content b" "pos b1 = unat off"
    by blast
  moreover from s(1) have "inv b1" by (rule op_safeD(2) [OF seek_safe assms(1)])
  ultimately show ?thesis
    using read_exact_spec [of b1 n] assms(2) by (auto simp: read_exact_at_def st_bind_def)
qed

lemma read_exact_at_Err:
  assumes "inv b" and "length (content b) < unat off + n" and "0 < n"
  shows "\<exists>e b'. read_exact_at V off n b = (Err e, b') \<and> inv b' \<and> content b' = content b"
proof (cases "unat off < isize_limit")
  case True
  from seek_near [OF assms(1) this] obtain b1 where
    s: "dev_seek V (SeekStart off) b = (Ok off, b1)" "content b1 = content b" "pos b1 = unat off"
    by blast
  moreover from s(1) have "inv b1" by (rule op_safeD(2) [OF seek_safe assms(1)])
  ultimately show ?thesis
    using read_exact_spec [of b1 n] assms(2,3) by (auto simp: read_exact_at_def st_bind_def)
next
  case False
  then obtain r b1 where s: "dev_seek V (SeekStart off) b = (r, b1)" "content b1 = content b"
      and far: "case r of Ok _ \<Rightarrow> isize_limit \<le> pos b1 | _ \<Rightarrow> True"
    using seek_far [OF assms(1), of off] by auto
  have i1: "inv b1" and r: "r \<noteq> Panic" using op_safeD [OF seek_safe assms(1) s(1)] by auto
  show ?thesis
  proof (cases r)
    case (Ok x)
    with far i1 content_bound [OF i1] read_exact_spec [of b1 n] assms(3) s show ?thesis
      by (auto simp: read_exact_at_def st_bind_def)
  qed (use s i1 r in \<open>auto simp: read_exact_at_def st_bind_def\<close>)
qed

lemma read_exact_at_spec:
  assumes "inv b" and "0 < n"
  shows "\<exists>r b'. read_exact_at V off n b = (r, b') \<and> inv b' \<and> content b' = content b \<and>
    (if unat off + n \<le> length (content b) then r = Ok (take n (drop (unat off) (content b)))
     else \<exists>e. r = Err e)"
  using read_exact_at_Ok [OF assms(1), of off n] read_exact_at_Err [OF assms(1) _ assms(2), of off]
  by (cases "unat off + n \<le> length (content b)") auto

end

section \<open>Files and cursors\<close>

text \<open>
  A \<open>std::fs::File\<close> on a regular file and a \<open>std::io::Cursor\<close> over a vector: the bytes and the
  position.  Both read as much as is asked and available; they differ in the seeks they refuse.
\<close>

record medium =
  med_bytes :: "u8 list"
  med_pos :: nat

definition medium_read :: "nat \<Rightarrow> (medium, io_error, u8 list) op" where
  "medium_read n = (\<lambda>m.
     let bs = take n (drop (med_pos m) (med_bytes m))
     in (Ok bs, m\<lparr>med_pos := med_pos m + length bs\<rparr>))"

text \<open>
  \<open>Cursor::seek\<close>: any absolute position is taken; a relative one is refused when the sum is
  negative or does not fit in 64 bits.
\<close>

definition seek_relative :: "int \<Rightarrow> nat \<Rightarrow> i64 \<Rightarrow> (medium, io_error, u64) op" where
  "seek_relative limit base n = (\<lambda>m.
     let p = int base + sint n
     in if 0 \<le> p \<and> p < limit then (Ok (word_of_int p), m\<lparr>med_pos := nat p\<rparr>)
        else (Err InvalidInput, m))"

fun cursor_seek :: "seek_from \<Rightarrow> (medium, io_error, u64) op" where
  "cursor_seek (SeekStart n) m = (Ok n, m\<lparr>med_pos := unat n\<rparr>)"
| "cursor_seek (SeekCurrent n) m = seek_relative (2 ^ 64) (med_pos m) n m"
| "cursor_seek (SeekEnd n) m = seek_relative (2 ^ 64) (length (med_bytes m)) n m"

text \<open>
  \<open>File::seek\<close> is \<open>lseek\<close>: the offset is an \<open>i64\<close>, and a negative one or a negative or
  overflowing sum is \<open>EINVAL\<close>.
\<close>

fun file_seek :: "seek_from \<Rightarrow> (medium, io_error, u64) op" where
  "file_seek (SeekStart n) m =
     (if unat n < isize_limit then (Ok n, m\<lparr>med_pos := unat n\<rparr>) else (Err InvalidInput, m))"
| "file_seek (SeekCurrent n) m = seek_relative (2 ^ 63) (med_pos m) n m"
| "file_seek (SeekEnd n) m = seek_relative (2 ^ 63) (length (med_bytes m)) n m"

definition cursor_ops :: "medium read_seek_ops" where
  "cursor_ops = \<lparr>dev_read = medium_read, dev_seek = cursor_seek\<rparr>"

definition file_ops :: "medium read_seek_ops" where
  "file_ops = \<lparr>dev_read = medium_read, dev_seek = file_seek\<rparr>"

text \<open>The only bound on a medium: its length is one a slice or a file can have.\<close>

definition medium_ok :: "medium \<Rightarrow> bool" where
  "medium_ok m \<longleftrightarrow> length (med_bytes m) < isize_limit"

text \<open>A medium at its start.\<close>

definition medium_of :: "u8 list \<Rightarrow> medium" where
  "medium_of bs = \<lparr>med_bytes = bs, med_pos = 0\<rparr>"

text \<open>\<open>file.metadata()?.len()\<close>\<close>

definition medium_len :: "(medium, io_error, u64) op" where
  "medium_len = (\<lambda>m. (Ok (of_nat (length (med_bytes m))), m))"

text \<open>\<open>file.stream_position()\<close> is a relative seek by nothing.\<close>

definition stream_position :: "'b read_seek_ops \<Rightarrow> ('b, io_error, u64) op" where
  "stream_position V = dev_seek V (SeekCurrent 0)"

text \<open>
  \<open>OneByteAtATime\<close> of the reader's tests: a backing that hands out one byte per call.
\<close>

definition one_byte_read :: "'b read_seek_ops \<Rightarrow> nat \<Rightarrow> ('b, io_error, u8 list) op" where
  "one_byte_read V n = (if n = 0 then st_ret [] else dev_read V 1)"

definition one_byte_ops :: "'b read_seek_ops \<Rightarrow> 'b read_seek_ops" where
  "one_byte_ops V = \<lparr>dev_read = one_byte_read V, dev_seek = dev_seek V\<rparr>"

section \<open>The sources satisfy the contracts\<close>

lemmas medium_defs =
  cursor_ops_def file_ops_def medium_read_def medium_ok_def seek_relative_def Let_def

interpretation cursor_source: byte_source cursor_ops medium_ok med_bytes med_pos
  by unfold_locales (auto simp: medium_defs op_safe_def width_simps)

interpretation file_bytes: byte_source file_ops medium_ok med_bytes med_pos
  by unfold_locales (auto simp: medium_defs op_safe_def width_simps)

interpretation one_byte_source: byte_source "one_byte_ops cursor_ops" medium_ok med_bytes med_pos
  by unfold_locales
     (auto simp: one_byte_ops_def one_byte_read_def medium_defs op_safe_def st_simps width_simps)

section \<open>The contracts of a file\<close>

text \<open>
  The functions that open a path work on a \<open>std::fs::File\<close>, which also tells its length and its
  position.  \<open>std_file\<close> is what holds of any such file, I/O errors included; \<open>file_source\<close> is a
  file in working order, on which in particular one \<open>read\<close> fills the buffer up to the end of the
  file, as for a regular file, and a seek to an offset that is no \<open>i64\<close> is refused (\<open>EINVAL\<close>).
\<close>

locale std_file = read_seek V inv
  for V :: "'b read_seek_ops" and inv :: "'b \<Rightarrow> bool" +
  fixes file_len :: "('b, io_error, u64) op"
  assumes len_safe: "op_safe inv file_len (\<lambda>_. True)"
    and position_safe: "op_safe inv (stream_position V) (\<lambda>_. True)"

locale file_source = byte_source V inv content pos + std_file V inv file_len
  for V :: "'b read_seek_ops" and inv :: "'b \<Rightarrow> bool" and content :: "'b \<Rightarrow> u8 list"
    and pos :: "'b \<Rightarrow> nat" and file_len :: "('b, io_error, u64) op" +
  assumes read_all: "inv b \<Longrightarrow>
      \<exists>b'. dev_read V n b = (Ok (take n (drop (pos b) (content b))), b')"
    and len_spec: "inv b \<Longrightarrow> \<exists>b'. file_len b = (Ok (of_nat (length (content b))), b')
        \<and> content b' = content b \<and> pos b' = pos b"
    and position_spec: "inv b \<Longrightarrow> pos b < isize_limit \<Longrightarrow>
        \<exists>b'. stream_position V b = (Ok (of_nat (pos b)), b') \<and> content b' = content b
          \<and> pos b' = pos b"
    and seek_refused: "inv b \<Longrightarrow> isize_limit \<le> unat off \<Longrightarrow>
        \<exists>b'. dev_seek V (SeekStart off) b = (Err InvalidInput, b')"

lemmas file_defs = medium_defs medium_len_def stream_position_def

interpretation regular_file: file_source file_ops medium_ok med_bytes med_pos medium_len
  by unfold_locales (auto simp: file_defs op_safe_def width_simps)

end
