(* ===== verification/Header.thy ===== *)
theory Header
  imports Utf8 Device
begin

text \<open>
  core/src/header.rs and core/src/error.rs: the error type of the crate, the strict parser
  \<open>Qcow2Header::parse\<close> that decides which images the reader decodes, and the lenient parser
  \<open>Qcow2Info::parse\<close> with the backing-file name and the walk over the header extensions.
\<close>

section \<open>Errors\<close>

datatype qcow2_error =
    Io io_error
  | BadMagic
  | UnsupportedVersion u32
  | EncryptedNotSupported
  | BackingFileNotSupported
  | CompressedCluster
  | UnsupportedIncompatibleFeatures u64
  | FileTooSmall
  | ClusterBitsOutOfRange u32
  | L1TableTooLarge u32

text \<open>
  \<open>File::open\<close>: a file system gives for a path the bytes of the file there, or the error of opening
  it (there is no such file, it may not be read, or any other); \<open>?\<close> wraps the error in \<open>Io\<close>.
\<close>

type_synonym 'p file_system = "'p \<Rightarrow> io_error + u8 list"

definition file_open :: "'p file_system \<Rightarrow> 'p \<Rightarrow> (qcow2_error, medium) outcome" where
  "file_open fs path = (case fs path of Inl e \<Rightarrow> Err (Io e) | Inr bs \<Rightarrow> Ok (medium_of bs))"

section \<open>Reading header fields\<close>

definition MAGIC :: u32 where
  "MAGIC = 0x514649fb"

definition MIN_HEADER_SIZE :: nat where
  "MIN_HEADER_SIZE = 72"

definition INCOMPAT_EXTERNAL_DATA :: u64 where
  "INCOMPAT_EXTERNAL_DATA = push_bit 2 1"

definition INCOMPAT_COMPRESSION_TYPE :: u64 where
  "INCOMPAT_COMPRESSION_TYPE = push_bit 3 1"

definition INCOMPAT_EXTENDED_L2 :: u64 where
  "INCOMPAT_EXTENDED_L2 = push_bit 4 1"

definition INCOMPAT_UNSUPPORTED :: u64 where
  "INCOMPAT_UNSUPPORTED =
     INCOMPAT_EXTERNAL_DATA OR INCOMPAT_COMPRESSION_TYPE OR INCOMPAT_EXTENDED_L2"

lemmas incompat_defs = INCOMPAT_UNSUPPORTED_def INCOMPAT_EXTERNAL_DATA_def
  INCOMPAT_COMPRESSION_TYPE_def INCOMPAT_EXTENDED_L2_def

definition be_u32 :: "u8 list \<Rightarrow> nat \<Rightarrow> u32" where
  "be_u32 data off =
     from_be (case get_range data off (off + 4) of Some s \<Rightarrow> s | None \<Rightarrow> [0, 0, 0, 0])"

definition be_u64 :: "u8 list \<Rightarrow> nat \<Rightarrow> u64" where
  "be_u64 data off =
     from_be (case get_range data off (off + 8) of
       Some s \<Rightarrow> s | None \<Rightarrow> [0, 0, 0, 0, 0, 0, 0, 0])"

text \<open>A header whose first byte is cleared has lost its magic.\<close>

lemma first_byte_cleared:
  assumes "4 \<le> length img"
  shows "be_word_at 4 (img[0 := 0]) 0 \<noteq> MAGIC"
proof -
  from assms obtain a xs where img: "img = a # xs" and l: "3 \<le> length xs" by (cases img) auto
  have "be_word_at 4 (img[0 := 0]) 0 = (from_be (0 # take 3 xs) :: u32)"
    using l by (simp add: img be_word_at_in_range numeral_eq_Suc)
  moreover have "unat (from_be (0 # take 3 xs) :: u32) < 2 ^ 24"
    using l be_nat_less [of "take 3 xs"] by (simp add: unat_from_be be_nat_Cons)
  ultimately show ?thesis by (auto simp: MAGIC_def)
qed

lemma be_u32_word_at: "be_u32 data off = be_word_at 4 data off"
  by (simp add: be_u32_def be_word_at_def replicate_4 split: option.split)

lemma be_u64_word_at: "be_u64 data off = be_word_at 8 data off"
  by (simp add: be_u64_def be_word_at_def replicate_8 split: option.split)

section \<open>The strict parser\<close>

record qcow2_header =
  h_cluster_bits :: u32
  h_disk_size :: u64
  h_l1_size :: u32
  h_l1_table_offset :: u64

definition header_parse :: "u8 list \<Rightarrow> (qcow2_error, qcow2_header) outcome" where
  "header_parse data =
    (if length data < MIN_HEADER_SIZE then Err FileTooSmall else
     let magic = be_u32 data 0 in
     if magic \<noteq> MAGIC then Err BadMagic else
     let version = be_u32 data 4 in
     if \<not> (2 \<le> version \<and> version \<le> 3) then Err (UnsupportedVersion version) else
     let backing_file_offset = be_u64 data 8 in
     if backing_file_offset \<noteq> 0 then Err BackingFileNotSupported else
     let cluster_bits = be_u32 data 20 in
     if \<not> (9 \<le> cluster_bits \<and> cluster_bits \<le> 20) then Err (ClusterBitsOutOfRange cluster_bits) else
     let disk_size = be_u64 data 24;
         encryption_method = be_u32 data 32 in
     if encryption_method \<noteq> 0 then Err EncryptedNotSupported else
     let l1_size = be_u32 data 36;
         l1_table_offset = be_u64 data 40;
         unsupported = be_u64 data 72 AND INCOMPAT_UNSUPPORTED in
     if version = 3 \<and> 80 \<le> length data \<and> unsupported \<noteq> 0
     then Err (UnsupportedIncompatibleFeatures unsupported) else
     Ok \<lparr>h_cluster_bits = cluster_bits, h_disk_size = disk_size,
         h_l1_size = l1_size, h_l1_table_offset = l1_table_offset\<rparr>)"

section \<open>The lenient parser\<close>

record qcow2_info =
  i_version :: u32
  i_cluster_bits :: u32
  i_virtual_disk_size :: u64
  i_l1_size :: u32
  i_has_backing_file :: bool
  i_encryption_method :: u32
  i_snapshot_count :: u32
  i_incompatible_features :: u64
  i_backing_file :: "rstring option"
  i_backing_format :: "rstring option"

definition EXT_BACKING_FORMAT :: u32 where
  "EXT_BACKING_FORMAT = 0xE2792ACA"

definition EXT_END :: u32 where
  "EXT_END = 0"

definition MAX_BACKING_LEN :: nat where
  "MAX_BACKING_LEN = 4096"

definition backing_file_name :: "u8 list \<Rightarrow> rstring option" where
  "backing_file_name data =
    (let offset = be_u64 data 8;
         size = unat (be_u32 data 16) in
     if offset = 0 \<or> size = 0 then None else
     let size = min size MAX_BACKING_LEN;
         start = unat offset in
     (case usize_checked_add start size of
        None \<Rightarrow> None
      | Some stop \<Rightarrow> map_option from_utf8_lossy (get_range data start stop)))"

text \<open>
  The loop over the header extensions, at most \<open>fuel\<close> of them.  The first test is the
  unchecked \<open>pos + 4\<close> and the \<open>off + 4\<close> inside \<open>be_u32\<close>, which a build with overflow checks
  panics on; the mask \<open>& !7\<close> rounds down to a multiple of eight.
\<close>

fun ext_walk :: "nat \<Rightarrow> u8 list \<Rightarrow> nat \<Rightarrow> (qcow2_error, rstring option) outcome" where
  "ext_walk 0 data pos = Ok None"
| "ext_walk (Suc fuel) data pos =
    (if usize_limit \<le> pos + 8 then Panic else
     let ext_type = be_u32 data pos;
         ext_len = unat (be_u32 data (pos + 4)) in
     if ext_type = EXT_END then Ok None else
     (case usize_checked_add pos 8 of None \<Rightarrow> Ok None | Some data_start \<Rightarrow>
     (case usize_checked_add data_start ext_len of None \<Rightarrow> Ok None | Some data_end \<Rightarrow>
      if ext_type = EXT_BACKING_FORMAT then
        (case usize_checked_add data_start (min ext_len MAX_BACKING_LEN) of
           None \<Rightarrow> Ok None
         | Some slice_end \<Rightarrow>
             Ok (map_option from_utf8_lossy (get_range data data_start slice_end)))
      else
        (case usize_checked_add ext_len 7 of None \<Rightarrow> Ok None | Some up \<Rightarrow>
        (case usize_checked_add data_start (8 * (up div 8)) of None \<Rightarrow> Ok None | Some pos' \<Rightarrow>
         if length data < data_end \<or> length data \<le> pos' then Ok None
         else ext_walk fuel data pos')))))"

definition backing_format_name :: "u8 list \<Rightarrow> u32 \<Rightarrow> (qcow2_error, rstring option) outcome" where
  "backing_format_name data version =
    (let pos = (if version = 3 then max (unat (be_u32 data 100)) MIN_HEADER_SIZE
                else MIN_HEADER_SIZE)
     in ext_walk 64 data pos)"

definition info_parse :: "u8 list \<Rightarrow> (qcow2_error, qcow2_info) outcome" where
  "info_parse data =
    (if length data < MIN_HEADER_SIZE then Err FileTooSmall else
     let magic = be_u32 data 0 in
     if magic \<noteq> MAGIC then Err BadMagic else
     let version = be_u32 data 4 in
     if version = 1 then
       Ok \<lparr>i_version = version, i_cluster_bits = 0,
           i_virtual_disk_size = be_u64 data 24, i_l1_size = 0,
           i_has_backing_file = (be_u64 data 8 \<noteq> 0),
           i_encryption_method = be_u32 data 36, i_snapshot_count = 0,
           i_incompatible_features = 0,
           i_backing_file = backing_file_name data, i_backing_format = None\<rparr>
     else if \<not> (2 \<le> version \<and> version \<le> 3) then Err (UnsupportedVersion version) else
     let has_backing_file = (be_u64 data 8 \<noteq> 0);
         cluster_bits = be_u32 data 20;
         virtual_disk_size = be_u64 data 24;
         encryption_method = be_u32 data 32;
         l1_size = be_u32 data 36;
         snapshot_count = be_u32 data 60;
         incompatible_features =
           (if version = 3 \<and> 80 \<le> length data then be_u64 data 72 else 0);
         backing_file = backing_file_name data in
     and_then (backing_format_name data version) (\<lambda>backing_format.
       Ok \<lparr>i_version = version, i_cluster_bits = cluster_bits,
           i_virtual_disk_size = virtual_disk_size, i_l1_size = l1_size,
           i_has_backing_file = has_backing_file,
           i_encryption_method = encryption_method, i_snapshot_count = snapshot_count,
           i_incompatible_features = incompatible_features,
           i_backing_file = backing_file, i_backing_format = backing_format\<rparr>))"

section \<open>The strict parser accepts exactly the decodable images\<close>

text \<open>
  The contract of the strict parser, stated over the bytes of the header: what an image must be
  for the reader to decode it.
\<close>

definition decodable_header :: "u8 list \<Rightarrow> bool" where
  "decodable_header data \<longleftrightarrow>
     MIN_HEADER_SIZE \<le> length data \<and> be_u32 data 0 = MAGIC \<and>
     be_u32 data 4 \<in> {2, 3} \<and> be_u64 data 8 = 0 \<and>
     9 \<le> unat (be_u32 data 20) \<and> unat (be_u32 data 20) \<le> 20 \<and>
     be_u32 data 32 = 0 \<and>
     (be_u32 data 4 = 3 \<and> 80 \<le> length data \<longrightarrow>
        \<not> bit (be_u64 data 72) 2 \<and> \<not> bit (be_u64 data 72) 3 \<and> \<not> bit (be_u64 data 72) 4)"

lemma u32_2_3: "2 \<le> v \<and> v \<le> 3 \<longleftrightarrow> v \<in> {2, 3}" for v :: u32
  by (auto simp: word_le_nat_alt word_unat_eq_iff)

lemma unsupported_zero_iff:
  "x AND INCOMPAT_UNSUPPORTED = 0 \<longleftrightarrow> \<not> bit x 2 \<and> \<not> bit x 3 \<and> \<not> bit x 4"
proof -
  have b: "bit INCOMPAT_UNSUPPORTED n \<longleftrightarrow> n \<in> {2, 3, 4}" for n
    unfolding incompat_defs bit_or_iff bit_push_bit_iff bit_1_iff by auto
  have "x AND INCOMPAT_UNSUPPORTED = 0 \<longleftrightarrow> (\<forall>n. \<not> (bit x n \<and> bit INCOMPAT_UNSUPPORTED n))"
    by (simp add: bit_eq_iff [of "x AND INCOMPAT_UNSUPPORTED"] bit_and_iff)
       (blast dest: bit_imp_le_length [where 'a = 64, simplified])
  then show ?thesis unfolding b by blast
qed

lemma header_parse_Ok_iff:
  "header_parse data = Ok h \<longleftrightarrow> decodable_header data \<and>
     h = \<lparr>h_cluster_bits = be_u32 data 20, h_disk_size = be_u64 data 24,
          h_l1_size = be_u32 data 36, h_l1_table_offset = be_u64 data 40\<rparr>"
  unfolding header_parse_def decodable_header_def Let_def u32_2_3
  by (auto simp: unsupported_zero_iff word_le_nat_alt split: if_splits)

lemma header_parse_no_panic: "header_parse data \<noteq> Panic"
  by (simp add: header_parse_def Let_def)

lemma header_parse_cluster_bits:
  "header_parse data = Ok h \<Longrightarrow> 9 \<le> unat (h_cluster_bits h) \<and> unat (h_cluster_bits h) \<le> 20"
  by (auto simp: header_parse_Ok_iff decodable_header_def)

section \<open>The lenient parser never panics\<close>

lemma ext_walk_no_panic:
  "pos + 8 < usize_limit \<Longrightarrow> length data < isize_limit \<Longrightarrow> ext_walk fuel data pos \<noteq> Panic"
proof (induction fuel arbitrary: pos)
  case (Suc fuel)
  have "pos' + 8 < usize_limit" if "pos' < length data" for pos'
    using that Suc.prems(2) by (simp add: width_simps)
  with Suc show ?case
    by (auto simp: Let_def not_le split: option.split)
qed simp

lemma backing_format_name_no_panic:
  assumes "length data < isize_limit"
  shows "backing_format_name data version \<noteq> Panic"
proof -
  have "unat (be_u32 data 100) < 2 ^ 32"
    using unsigned_less [of "be_u32 data 100"] by simp
  then show ?thesis
    using assms unfolding backing_format_name_def Let_def
    by (intro ext_walk_no_panic) (simp_all add: width_simps MIN_HEADER_SIZE_def)
qed

lemma backing_format_name_not_Err: "backing_format_name data version \<noteq> Err e"
proof -
  have "ext_walk fuel data pos \<noteq> Err e" for fuel pos
    by (induction fuel arbitrary: pos) (auto simp: Let_def split: option.split)
  then show ?thesis by (simp add: backing_format_name_def Let_def)
qed

lemma info_parse_reports:
  assumes "MIN_HEADER_SIZE \<le> length data" and "be_u32 data 0 = MAGIC" and "be_u32 data 4 = v"
    and "v \<in> {2, 3}" and "backing_format_name data v = Ok f"
  shows "\<exists>i. info_parse data = Ok i \<and> i_version i = v \<and> i_cluster_bits i = be_u32 data 20 \<and>
    i_has_backing_file i = (be_u64 data 8 \<noteq> 0) \<and> i_backing_file i = backing_file_name data \<and>
    i_backing_format i = f"
proof -
  have "v \<noteq> 1" "2 \<le> v \<and> v \<le> 3" using assms(4) by auto
  with assms show ?thesis by (simp add: info_parse_def Let_def)
qed

lemma info_parse_no_panic: "length data < isize_limit \<Longrightarrow> info_parse data \<noteq> Panic"
  using backing_format_name_no_panic [of data]
  by (simp add: info_parse_def Let_def and_then_Panic_iff)

section \<open>The header extensions\<close>

text \<open>
  A header extension as it is written in an image (the encoder \<open>ext\<close> of the parser's tests): the
  type, the length and the payload, padded to a multiple of eight bytes.
\<close>

definition ext_encode :: "u32 \<Rightarrow> u8 list \<Rightarrow> u8 list" where
  "ext_encode ty payload =
     to_be 4 ty @ to_be 4 (of_nat (length payload) :: u32) @ payload
     @ replicate ((8 - length payload mod 8) mod 8) 0"

lemma padded_length: "n + (8 - n mod 8) mod 8 = 8 * ((n + 7) div 8)" for n :: nat
proof -
  define q r where "q = n div 8" and "r = n mod 8"
  then have n: "n = 8 * q + r" and "r < 8" by simp_all
  then have "(n + 7) div 8 = (if r = 0 then q else Suc q)" by (simp add: div_nat_eqI)
  moreover have "(8 - n mod 8) mod 8 = (if r = 0 then 0 else 8 - r)"
    using n \<open>r < 8\<close> by simp
  ultimately show ?thesis using n \<open>r < 8\<close> by (simp split: if_splits)
qed

lemma length_ext_encode: "length (ext_encode ty p) = 8 + 8 * ((length p + 7) div 8)"
  using padded_length [of "length p"] by (simp add: ext_encode_def)

lemma ext_encode_not_Nil [simp]: "ext_encode ty p \<noteq> []"
  using length_ext_encode [of ty p] by (auto dest: arg_cong [of _ _ length])

text \<open>What the walk reads of an extension at its position.\<close>

lemma ext_fields:
  assumes "data = pre @ ext_encode ty p @ rest" and "length p < 2 ^ 32"
  shows "be_u32 data (length pre) = ty"
    and "unat (be_u32 data (length pre + 4)) = length p"
    and "get_range data (length pre + 8) (length pre + 8 + length p) = Some p"
proof -
  have d1: "data = pre @ to_be 4 ty
      @ (to_be 4 (of_nat (length p) :: u32) @ p @ replicate ((8 - length p mod 8) mod 8) 0 @ rest)"
    using assms(1) by (simp add: ext_encode_def)
  then show "be_u32 data (length pre) = ty"
    by (simp only: be_u32_word_at) (rule be_word_at_encoded; simp)
  have d2: "data = (pre @ to_be 4 ty) @ to_be 4 (of_nat (length p) :: u32)
      @ (p @ replicate ((8 - length p mod 8) mod 8) 0 @ rest)"
    using d1 by simp
  have "be_u32 data (length pre + 4) = of_nat (length p)"
    unfolding be_u32_word_at by (subst d2) (rule be_word_at_encoded; simp)
  then show "unat (be_u32 data (length pre + 4)) = length p"
    using assms(2) by (simp add: unat_of_nat)
  show "get_range data (length pre + 8) (length pre + 8 + length p) = Some p"
    by (subst d2) (simp add: get_range_def)
qed

lemma ext_walk_skip:
  assumes data: "data = pre @ ext_encode ty p @ rest" and "rest \<noteq> []"
    and "ty \<noteq> EXT_END" and "ty \<noteq> EXT_BACKING_FORMAT"
    and lp: "length p < 2 ^ 32" and ld: "length data < isize_limit"
  shows "ext_walk (Suc fuel) data (length pre) = ext_walk fuel data (length (pre @ ext_encode ty p))"
proof -
  have l: "length data = length pre + 8 + 8 * ((length p + 7) div 8) + length rest"
    using data by (simp add: length_ext_encode)
  have "length p \<le> 8 * ((length p + 7) div 8)" by presburger
  with l ld assms(2) lp show ?thesis
    unfolding ext_walk.simps ext_fields [OF data lp]
    using assms(3,4)
    by (auto simp: Let_def usize_checked_add_def length_ext_encode width_simps not_le not_less ac_simps)
qed

lemma ext_walk_found:
  assumes data: "data = pre @ ext_encode EXT_BACKING_FORMAT p @ rest"
    and lp: "length p \<le> MAX_BACKING_LEN" and ld: "length data < isize_limit"
  shows "ext_walk (Suc fuel) data (length pre) = Ok (Some (from_utf8_lossy p))"
proof -
  have lp': "length p < 2 ^ 32" using lp by (simp add: MAX_BACKING_LEN_def)
  have l: "length data = length pre + 8 + 8 * ((length p + 7) div 8) + length rest"
    using data by (simp add: length_ext_encode)
  have "length p \<le> 8 * ((length p + 7) div 8)" by presburger
  with l ld lp lp' show ?thesis
    unfolding ext_walk.simps ext_fields [OF data lp']
    using ext_fields(3) [OF data lp']
    by (auto simp: Let_def usize_checked_add_def width_simps EXT_END_def EXT_BACKING_FORMAT_def min_def)
qed

lemma ext_walk_stop:
  assumes data: "data = pre @ ext_encode EXT_END p @ rest"
    and lp: "length p < 2 ^ 32" and ld: "length data < isize_limit"
  shows "ext_walk fuel data (length pre) = Ok None"
proof (cases fuel)
  case (Suc f)
  have "length pre + 8 \<le> length data"
    using data by (simp add: length_ext_encode)
  with ld show ?thesis
    unfolding Suc ext_walk.simps ext_fields [OF data lp]
    by (simp add: Let_def width_simps)
qed simp

text \<open>Zeros read as an end marker.\<close>

lemma ext_walk_zero:
  assumes "be_u32 data pos = 0" and "pos + 8 < usize_limit"
  shows "ext_walk fuel data pos = Ok None"
  using assms by (cases fuel) (simp_all add: Let_def EXT_END_def)

text \<open>The extensions the walk passes over.\<close>

definition skipped_ext :: "u32 \<times> u8 list \<Rightarrow> bool" where
  "skipped_ext e \<longleftrightarrow> fst e \<noteq> EXT_END \<and> fst e \<noteq> EXT_BACKING_FORMAT \<and> length (snd e) < 2 ^ 32"

lemma ext_walk_last:
  assumes data: "data = pre @ ext_encode ty p" and "skipped_ext (ty, p)" and ld: "length data < isize_limit"
  shows "ext_walk fuel data (length pre) = Ok None"
proof (cases fuel)
  case (Suc f)
  have lp: "length p < 2 ^ 32" using assms(2) by (simp add: skipped_ext_def)
  have l: "length data = length pre + 8 + 8 * ((length p + 7) div 8)"
    using data by (simp add: length_ext_encode)
  have "data = pre @ ext_encode ty p @ []" using data by simp
  note f = ext_fields [OF this lp]
  from l ld lp assms(2) show ?thesis
    unfolding Suc ext_walk.simps f
    by (auto simp: Let_def usize_checked_add_def width_simps skipped_ext_def not_le not_less ac_simps)
qed simp

definition ext_area :: "(u32 \<times> u8 list) list \<Rightarrow> u8 list" where
  "ext_area exts = concat (map (\<lambda>(ty, p). ext_encode ty p) exts)"

lemma ext_walk_area:
  assumes "data = pre @ ext_area exts @ rest" and "rest \<noteq> []" and "list_all skipped_ext exts"
    and "length data < isize_limit" and "length exts \<le> fuel"
  shows "ext_walk fuel data (length pre)
    = ext_walk (fuel - length exts) data (length (pre @ ext_area exts))"
  using assms
proof (induction exts arbitrary: pre fuel)
  case Nil
  then show ?case by (simp add: ext_area_def)
next
  case (Cons e exts)
  obtain ty p where e: "e = (ty, p)" by fastforce
  have d: "data = pre @ ext_encode ty p @ (ext_area exts @ rest)"
    using Cons.prems(1) e by (simp add: ext_area_def)
  from Cons.prems(5) obtain f where f: "fuel = Suc f" by (cases fuel) auto
  have "ext_walk fuel data (length pre) = ext_walk f data (length (pre @ ext_encode ty p))"
    unfolding f using Cons.prems(2,3,4) e by (intro ext_walk_skip [OF d]) (auto simp: skipped_ext_def)
  also have "\<dots> = ext_walk (f - length exts) data (length ((pre @ ext_encode ty p) @ ext_area exts))"
    using Cons.prems d f by (intro Cons.IH) auto
  finally show ?case using e f by (simp add: ext_area_def)
qed

lemma backing_format_in_area:
  assumes "data = pre @ ext_area exts @ ext_encode EXT_BACKING_FORMAT name @ rest"
    and "list_all skipped_ext exts" and "length exts \<le> 63" and "length name \<le> MAX_BACKING_LEN"
    and "length data < isize_limit"
    and "length pre = (if version = 3 then max (unat (be_u32 data 100)) MIN_HEADER_SIZE
      else MIN_HEADER_SIZE)"
  shows "backing_format_name data version = Ok (Some (from_utf8_lossy name))"
proof -
  have "ext_encode EXT_BACKING_FORMAT name @ rest \<noteq> []" by simp
  note skip = ext_walk_area [OF assms(1) this assms(2,5)]
  have "64 - length exts = Suc (63 - length exts)" and "length exts \<le> 64" using assms(3) by simp_all
  then have "ext_walk 64 data (length pre)
      = ext_walk (Suc (63 - length exts)) data (length (pre @ ext_area exts))"
    using skip [of 64] by (simp only:)
  also have "\<dots> = Ok (Some (from_utf8_lossy name))"
    using assms(1,4,5) by (intro ext_walk_found [of _ _ _ rest]) simp_all
  finally show ?thesis by (simp add: backing_format_name_def assms(6))
qed

section \<open>A small image\<close>

text \<open>
  A version 2 image of 92 bytes with one L1 entry, one L2 entry and a disk of four bytes, on which
  the theorems below are applied.
\<close>

definition sample_header :: "u8 list" where
  "sample_header =
     [0x51, 0x46, 0x49, 0xfb, 0, 0, 0, 2,  0, 0, 0, 0, 0, 0, 0, 0,  0, 0, 0, 0, 0, 0, 0, 9,
      0, 0, 0, 0, 0, 0, 0, 4,  0, 0, 0, 0, 0, 0, 0, 1,  0, 0, 0, 0, 0, 0, 0, 72,
      0, 0, 0, 0, 0, 0, 0, 0,  0, 0, 0, 0, 0, 0, 0, 0,  0, 0, 0, 0, 0, 0, 0, 0]"

definition sample_image :: "u8 list" where
  "sample_image = sample_header @ [0, 0, 0, 0, 0, 0, 0, 80,  0, 0, 0, 0, 0, 0, 0, 88,  1, 2, 3, 4]"

definition sample_fields :: qcow2_header where
  "sample_fields =
     \<lparr>h_cluster_bits = 9, h_disk_size = 4, h_l1_size = 1, h_l1_table_offset = 72\<rparr>"

definition no_inflate :: "u8 list \<Rightarrow> u8 list option" where
  "no_inflate bs = None"

lemmas sample_defs = sample_image_def sample_header_def sample_fields_def no_inflate_def

lemma sample_parse: "header_parse (take 104 sample_image) = Ok sample_fields"
  by (simp add: header_parse_def sample_defs be_u32_def be_u64_def get_range_def from_be_def
      be_nat_def MAGIC_def MIN_HEADER_SIZE_def)

lemma sample_length: "length sample_image = 92"
  by (simp add: sample_defs)

section \<open>Properties\<close>

text \<open>
  C10. The strict parser accepts exactly the decodable headers (72 bytes, the magic, version 2 or 3,
  no backing file, cluster_bits from 9 to 20, no encryption, none of the incompatible features
  2, 3, 4 on a version 3 header of at least 80 bytes), returns the four fields at their offsets,
  and never panics.
\<close>

theorem strict_parser_exact:
  "header_parse data \<noteq> Panic \<and>
   (\<forall>h. header_parse data = Ok h \<longleftrightarrow> decodable_header data \<and>
      h = \<lparr>h_cluster_bits = be_u32 data 20, h_disk_size = be_u64 data 24,
           h_l1_size = be_u32 data 36, h_l1_table_offset = be_u64 data 40\<rparr>)"
  using header_parse_no_panic header_parse_Ok_iff by blast

text \<open>
  The lenient parser never panics, and it accepts exactly the data of at least 72 bytes with the
  magic and a version of 1, 2 or 3.
\<close>

theorem lenient_parser_accepts:
  assumes "length data < isize_limit"
  shows "info_parse data \<noteq> Panic \<and>
    ((\<exists>i. info_parse data = Ok i) \<longleftrightarrow>
       MIN_HEADER_SIZE \<le> length data \<and> be_u32 data 0 = MAGIC \<and> be_u32 data 4 \<in> {1, 2, 3})"
proof -
  have b: "\<exists>f. backing_format_name data v = Ok f" for v
    using backing_format_name_no_panic [OF assms, of v] backing_format_name_not_Err [of data v]
    by (cases "backing_format_name data v") auto
  have "\<not> (2 \<le> v \<and> v \<le> 3) \<longleftrightarrow> v \<notin> {2, 3}" for v :: u32 using u32_2_3 by blast
  with b [of "be_u32 data 4"] show ?thesis
    by (auto simp: info_parse_def Let_def u32_2_3)
qed

theorem lenient_parser_accepts_witness:
  "\<exists>i. info_parse sample_image = Ok i"
  using lenient_parser_accepts [of sample_image] sample_length
  by (simp add: isize_limit_def MIN_HEADER_SIZE_def)
     (simp add: sample_defs be_u32_def get_range_def from_be_def be_nat_def MAGIC_def)

text \<open>What the strict parser accepts, the lenient one reports as a plain image of the same geometry.\<close>

lemma strict_parse_info:
  assumes "header_parse data = Ok h" and "length data < isize_limit"
  shows "\<exists>i. info_parse data = Ok i \<and> i_version i \<in> {2, 3} \<and>
    i_cluster_bits i = h_cluster_bits h \<and> i_virtual_disk_size i = h_disk_size h \<and>
    i_l1_size i = h_l1_size h \<and> \<not> i_has_backing_file i \<and> i_backing_file i = None \<and>
    i_encryption_method i = 0 \<and> i_incompatible_features i AND INCOMPAT_UNSUPPORTED = 0"
proof -
  have d: "decodable_header data" and h: "h = \<lparr>h_cluster_bits = be_u32 data 20,
      h_disk_size = be_u64 data 24, h_l1_size = be_u32 data 36, h_l1_table_offset = be_u64 data 40\<rparr>"
    using assms(1) by (simp_all add: header_parse_Ok_iff)
  obtain f where f: "backing_format_name data (be_u32 data 4) = Ok f"
    using backing_format_name_no_panic [OF assms(2)] backing_format_name_not_Err
    by (cases "backing_format_name data (be_u32 data 4)") auto
  have n: "backing_file_name data = None"
    using d by (simp add: decodable_header_def backing_file_name_def)
  have v: "be_u32 data 4 \<noteq> 1" "2 \<le> be_u32 data 4 \<and> be_u32 data 4 \<le> 3"
    using d u32_2_3 by (auto simp: decodable_header_def)
  have u: "be_u64 data 72 AND INCOMPAT_UNSUPPORTED = 0" if "be_u32 data 4 = 3 \<and> 80 \<le> length data"
    using d that by (simp add: decodable_header_def unsupported_zero_iff)
  show ?thesis
    using d f n v u h
    by (auto simp: info_parse_def Let_def decodable_header_def)
qed

text \<open>The strict parser looks at the first 104 bytes only.\<close>

lemma header_parse_window: "104 \<le> n \<Longrightarrow> header_parse (take n data) = header_parse (take 104 data)"
  by (simp only: header_parse_def be_u32_word_at be_u64_word_at be_word_at_take Let_def length_take MIN_HEADER_SIZE_def)
     (auto simp: min_def)

text \<open>
  C25. The two header parsers agree: an image the strict parser accepts is accepted by the lenient
  one with the same cluster_bits, disk size and L1 size, without a backing file, without
  encryption and without the incompatible features the reader cannot handle.
\<close>

theorem parsers_agree:
  assumes "header_parse data = Ok h" and "length data < isize_limit"
  shows "\<exists>i. info_parse data = Ok i \<and> i_version i \<in> {2, 3} \<and>
    i_cluster_bits i = h_cluster_bits h \<and> i_virtual_disk_size i = h_disk_size h \<and>
    i_l1_size i = h_l1_size h \<and> \<not> i_has_backing_file i \<and> i_backing_file i = None \<and>
    i_encryption_method i = 0 \<and> i_incompatible_features i AND INCOMPAT_UNSUPPORTED = 0"
  using assms by (rule strict_parse_info)

theorem parsers_agree_witness:
  "\<exists>i. info_parse (take 104 sample_image) = Ok i \<and> i_cluster_bits i = 9 \<and> i_virtual_disk_size i = 4"
proof -
  have "length (take 104 sample_image) < isize_limit" by (simp add: sample_length isize_limit_def)
  from parsers_agree [OF sample_parse this] show ?thesis by (auto simp: sample_fields_def)
qed

text \<open>
  C27. The walk over the header extensions finds the backing format behind up to 63 other extensions
  of any length, with their padding, from the header length of version 3 or from byte 72.
\<close>

theorem backing_format_found:
  assumes "data = pre @ ext_area exts @ ext_encode EXT_BACKING_FORMAT name @ rest"
    and "list_all skipped_ext exts" and "length exts \<le> 63" and "length name \<le> MAX_BACKING_LEN"
    and "length data < isize_limit"
    and "length pre = (if version = 3 then max (unat (be_u32 data 100)) MIN_HEADER_SIZE
      else MIN_HEADER_SIZE)"
  shows "backing_format_name data version = Ok (Some (from_utf8_lossy name))"
  using assms by (rule backing_format_in_area)

theorem backing_format_found_witness:
  "backing_format_name (sample_header @ ext_encode 0x6803f857 [1] @
     ext_encode EXT_BACKING_FORMAT (str ''raw'')) 2 = Ok (Some (str ''raw''))"
proof -
  have "from_utf8_lossy (str ''raw'') = str ''raw''"
    by (rule from_utf8_lossy_valid [OF utf8_valid_ascii]) (simp add: str_def)
  moreover have "length sample_header = 72" by (simp add: sample_header_def)
  ultimately show ?thesis
    using backing_format_found [of _ sample_header "[(0x6803f857, [1])]" "str ''raw''" "[]" 2, OF refl]
    by (simp add: ext_area_def skipped_ext_def EXT_END_def EXT_BACKING_FORMAT_def length_ext_encode
        MAX_BACKING_LEN_def MIN_HEADER_SIZE_def isize_limit_def str_def)
qed

text \<open>
  Nothing behind the end marker is read: a backing format placed after it is not reported.
\<close>

theorem backing_format_stops_at_end:
  assumes "data = pre @ ext_area exts @ ext_encode EXT_END p @ rest"
    and "list_all skipped_ext exts" and "length exts \<le> 64" and "length p < 2 ^ 32"
    and "length data < isize_limit"
    and "length pre = (if version = 3 then max (unat (be_u32 data 100)) MIN_HEADER_SIZE
      else MIN_HEADER_SIZE)"
  shows "backing_format_name data version = Ok None"
proof -
  have "ext_encode EXT_END p @ rest \<noteq> []" by simp
  from ext_walk_area [OF assms(1) this assms(2,5,3)]
  have "ext_walk 64 data (length pre) = ext_walk (64 - length exts) data (length (pre @ ext_area exts))" .
  also have "\<dots> = Ok None"
    using assms(1,4,5) by (intro ext_walk_stop [of _ _ p rest]) simp_all
  finally show ?thesis by (simp add: backing_format_name_def assms(6))
qed

theorem backing_format_stops_at_end_witness:
  "backing_format_name (sample_header @ ext_encode EXT_END [] @
     ext_encode EXT_BACKING_FORMAT (str ''raw'')) 2 = Ok None"
proof -
  have "length sample_header = 72" by (simp add: sample_header_def)
  then show ?thesis
    using backing_format_stops_at_end [of _ sample_header "[]" "[]"
        "ext_encode EXT_BACKING_FORMAT (str ''raw'')" 2, OF refl]
    by (simp add: ext_area_def EXT_END_def EXT_BACKING_FORMAT_def length_ext_encode
        MIN_HEADER_SIZE_def isize_limit_def str_def)
qed

end
