(* ===== verification/Reader.thy ===== *)
theory Reader
  imports Header
begin

text \<open>
  core/src/lib.rs: the reader itself.  Opening an image (\<open>from_backing\<close>), the two-level lookup
  of a cluster (\<open>cluster_ref_for\<close>), the decompression of a compressed cluster, \<open>Read::read\<close> and
  \<open>Seek::seek\<close> over the virtual disk, and \<open>inspect\<close>.  The DEFLATE decoder of flate2 is a
  parameter \<open>inflate\<close>: from the compressed bytes to the bytes \<open>read_to_end\<close> collects, \<open>None\<close>
  when it fails.
\<close>

section \<open>The reader\<close>

record 'b qcow2_reader =
  backing :: 'b
  virtual_disk_size :: u64
  cluster_size :: u64
  l1_table :: "u64 list"
  l2_bits :: u32
  l2_mask :: u64
  rpos :: u64

text \<open>A method call on the backing of a reader.\<close>

definition on_backing :: "('b, 'e, 'a) op \<Rightarrow> ('b qcow2_reader, 'e, 'a) op" where
  "on_backing m = (\<lambda>r. (fst (m (backing r)), r\<lparr>backing := snd (m (backing r))\<rparr>))"

definition MAX_L1_ENTRIES :: u32 where
  "MAX_L1_ENTRIES = push_bit 20 1"

text \<open>
  \<open>from_backing\<close>: the header window, the strict parser, the geometry, the guard on the L1 size,
  then the L1 table.  The operation runs on the backing, which the reader takes over at the end.
\<close>

definition from_backing :: "'b read_seek_ops \<Rightarrow> ('b, qcow2_error, 'b qcow2_reader) op" where
  "from_backing V =
    st_bind (st_map_err Io (read_window V 104)) (\<lambda>hdr_buf.
    st_bind (st_lift (header_parse hdr_buf)) (\<lambda>hdr.
    st_bind (st_lift (shl_chk 1 (h_cluster_bits hdr))) (\<lambda>cs.
    st_bind (st_lift (sub_chk (h_cluster_bits hdr) 3)) (\<lambda>bits.
    st_bind (st_lift (sub_chk (cs div 8) 1)) (\<lambda>mask.
    if MAX_L1_ENTRIES < h_l1_size hdr then st_err (L1TableTooLarge (h_l1_size hdr)) else
    st_bind (st_lift (mul_chk (ucast (h_l1_size hdr)) 8)) (\<lambda>l1_bytes.
    st_bind (st_map_err Io (read_exact_at V (h_l1_table_offset hdr) (unat (l1_bytes :: u64))))
      (\<lambda>l1_buf b.
        (Ok \<lparr>backing = b, virtual_disk_size = h_disk_size hdr, cluster_size = cs,
             l1_table = be_u64_table l1_buf, l2_bits = bits, l2_mask = mask, rpos = 0\<rparr>,
         b))))))))"

text \<open>\<open>Qcow2Reader::open_reader\<close> and \<open>from_reader\<close>: the result alone.\<close>

definition open_reader :: "'b read_seek_ops \<Rightarrow> 'b \<Rightarrow> (qcow2_error, 'b qcow2_reader) outcome" where
  "open_reader V b = fst (from_backing V b)"

definition reader_open :: "'p file_system \<Rightarrow> 'p \<Rightarrow> (qcow2_error, medium qcow2_reader) outcome" where
  "reader_open fs path = and_then (file_open fs path) (open_reader file_ops)"

text \<open>\<open>inspect\<close>: the lenient parser on a window of 8 KiB.\<close>

definition inspect :: "'p file_system \<Rightarrow> 'p \<Rightarrow> (qcow2_error, qcow2_info) outcome" where
  "inspect fs path =
     and_then (file_open fs path) (\<lambda>file.
     and_then (map_outcome_err Io (fst (read_window file_ops 8192 file))) info_parse)"

section \<open>Cluster lookup\<close>

datatype cluster_ref = Unallocated | ZeroCluster | Normal u64 | Compressed u64 nat

text \<open>\<open>u64::trailing_zeros\<close>\<close>

definition trailing_zeros :: "u64 \<Rightarrow> nat" where
  "trailing_zeros w = length (takeWhile (\<lambda>i. \<not> bit w i) [0..<64])"

text \<open>The descriptor of a compressed cluster: a file offset and a number of 512-byte sectors.\<close>

definition compressed_ref :: "u32 \<Rightarrow> u64 \<Rightarrow> ('e, cluster_ref) outcome" where
  "compressed_ref cluster_bits l2_entry =
    and_then (sub_chk 63 cluster_bits) (\<lambda>split.
    and_then (sub_chk cluster_bits 1) (\<lambda>count_bits.
    and_then (shl_chk 1 count_bits) (\<lambda>count_top.
    and_then (sub_chk count_top 1) (\<lambda>count_mask.
    and_then (shl_chk 1 split) (\<lambda>off_top.
    and_then (sub_chk off_top 1) (\<lambda>off_mask.
    and_then (shr_chk l2_entry split) (\<lambda>shifted.
    and_then (add_chk (shifted AND count_mask) 1) (\<lambda>nb_sectors.
    and_then (mul_chk nb_sectors 512) (\<lambda>compressed_bytes.
    Ok (Compressed (l2_entry AND off_mask) (unat compressed_bytes)))))))))))"

text \<open>What an L2 entry says, in the order the code tests it.\<close>

definition classify_l2_entry :: "u32 \<Rightarrow> u64 \<Rightarrow> ('e, cluster_ref) outcome" where
  "classify_l2_entry cluster_bits l2_entry =
    (if l2_entry AND push_bit 62 1 \<noteq> 0 then compressed_ref cluster_bits l2_entry
     else if l2_entry AND 1 \<noteq> 0 then Ok ZeroCluster
     else let cluster_offset = l2_entry AND 0x3FFFFFFFFFFFFFFF in
          if cluster_offset = 0 then Ok Unallocated else Ok (Normal cluster_offset))"

definition cluster_ref_for ::
  "'b read_seek_ops \<Rightarrow> u64 \<Rightarrow> ('b qcow2_reader, io_error, cluster_ref) op" where
  "cluster_ref_for V virtual_offset = st_with (\<lambda>r.
    let cluster_bits = of_nat (trailing_zeros (cluster_size r)) in
    st_bind (st_lift (shr_chk virtual_offset cluster_bits)) (\<lambda>cluster_idx.
    st_bind (st_lift (shr_chk cluster_idx (l2_bits r))) (\<lambda>l1_idx.
    let l2_idx = cluster_idx AND l2_mask r;
        l1_entry = (case get_at (l1_table r) (unat l1_idx) of Some e \<Rightarrow> e | None \<Rightarrow> 0);
        l2_table_offset = l1_entry AND 0x7FFFFFFFFFFFFFFF in
    if l2_table_offset = 0 then st_ret Unallocated else
    st_bind (st_lift (mul_chk l2_idx 8)) (\<lambda>l2_byte.
    st_bind (st_lift (add_chk l2_table_offset l2_byte)) (\<lambda>l2_entry_pos.
    st_bind (on_backing (read_exact_at V l2_entry_pos 8)) (\<lambda>l2_bytes.
    st_lift (classify_l2_entry cluster_bits (from_be l2_bytes))))))))"

section \<open>Reading and seeking\<close>

text \<open>
  \<open>decompress_cluster\<close>: the compressed bytes, as many as there are up to the end of the file; the
  decoder; and the zero-padding of a short result to the size of a cluster.
\<close>

definition decompress_cluster ::
  "'b read_seek_ops \<Rightarrow> (u8 list \<Rightarrow> u8 list option) \<Rightarrow> u64 \<Rightarrow> nat
     \<Rightarrow> ('b qcow2_reader, io_error, u8 list) op" where
  "decompress_cluster V inflate file_offset compressed_bytes =
    st_bind (on_backing (read_window_at V file_offset compressed_bytes)) (\<lambda>raw.
    st_with (\<lambda>r.
      case inflate raw of
         None \<Rightarrow> st_err InvalidData
       | Some out \<Rightarrow>
           if length out < unat (cluster_size r)
           then st_ret (out @ replicate (unat (cluster_size r) - length out) 0)
           else st_ret out))"

text \<open>The \<open>match\<close> on the cluster reference: the bytes the call puts into the buffer.\<close>

definition read_cluster ::
  "'b read_seek_ops \<Rightarrow> (u8 list \<Rightarrow> u8 list option) \<Rightarrow> u64 \<Rightarrow> nat \<Rightarrow> cluster_ref
     \<Rightarrow> ('b qcow2_reader, io_error, u8 list) op" where
  "read_cluster V inflate offset_in_cluster to_read c =
    (case c of
       Normal cluster_offset \<Rightarrow>
         st_bind (st_lift (add_chk cluster_offset offset_in_cluster)) (\<lambda>file_off.
         st_bind (on_backing (dev_seek V (SeekStart file_off))) (\<lambda>_.
         on_backing (dev_read V to_read)))
     | Compressed file_offset compressed_bytes \<Rightarrow>
         st_bind (decompress_cluster V inflate file_offset compressed_bytes) (\<lambda>decompressed.
         st_lift (slice_chk decompressed (unat offset_in_cluster)
                   (unat offset_in_cluster + to_read)))
     | ZeroCluster \<Rightarrow> st_ret (replicate to_read 0)
     | Unallocated \<Rightarrow> st_ret (replicate to_read 0))"

text \<open>\<open>self.pos += n as u64\<close>\<close>

definition advance :: "nat \<Rightarrow> ('b qcow2_reader, io_error, unit) op" where
  "advance n = st_with (\<lambda>r.
    st_bind (st_lift (add_chk (rpos r) (of_nat n))) (\<lambda>new_pos.
    st_modify (\<lambda>r. r\<lparr>rpos := new_pos\<rparr>)))"

definition reader_read ::
  "'b read_seek_ops \<Rightarrow> (u8 list \<Rightarrow> u8 list option) \<Rightarrow> nat
     \<Rightarrow> ('b qcow2_reader, io_error, u8 list) op" where
  "reader_read V inflate n = st_with (\<lambda>r.
    if virtual_disk_size r \<le> rpos r \<or> n = 0 then st_ret [] else
    st_bind (st_lift (sub_chk (virtual_disk_size r) (rpos r))) (\<lambda>remaining_virtual.
    st_bind (st_lift (sub_chk (cluster_size r) 1)) (\<lambda>in_cluster_mask.
    let offset_in_cluster = rpos r AND in_cluster_mask in
    st_bind (st_lift (sub_chk (cluster_size r) offset_in_cluster)) (\<lambda>remaining_in_cluster.
    let to_read = min (min n (unat remaining_virtual)) (unat remaining_in_cluster) in
    st_bind (cluster_ref_for V (rpos r)) (\<lambda>c.
    st_bind (read_cluster V inflate offset_in_cluster to_read c) (\<lambda>bs.
    st_bind (advance (length bs)) (\<lambda>_. st_ret bs)))))))"

fun reader_seek_target :: "seek_from \<Rightarrow> 'b qcow2_reader \<Rightarrow> (io_error, i64) outcome" where
  "reader_seek_target (SeekStart n) r = Ok n"
| "reader_seek_target (SeekCurrent n) r = sadd_chk (rpos r) n"
| "reader_seek_target (SeekEnd n) r = sadd_chk (virtual_disk_size r) n"

definition reader_seek :: "seek_from \<Rightarrow> ('b qcow2_reader, io_error, u64) op" where
  "reader_seek target = st_with (\<lambda>r.
    st_bind (st_lift (reader_seek_target target r)) (\<lambda>new_pos.
    if sint new_pos < 0 then st_err InvalidInput
    else st_bind (st_modify (\<lambda>r. r\<lparr>rpos := new_pos\<rparr>)) (\<lambda>_. st_ret new_pos)))"

text \<open>The reader as a source of its own: \<open>impl Read\<close> and \<open>impl Seek for Qcow2Reader\<close>.\<close>

definition reader_ops ::
  "'b read_seek_ops \<Rightarrow> (u8 list \<Rightarrow> u8 list option) \<Rightarrow> 'b qcow2_reader read_seek_ops" where
  "reader_ops V inflate = \<lparr>dev_read = reader_read V inflate, dev_seek = reader_seek\<rparr>"

section \<open>The invariant of a reader\<close>

text \<open>
  What \<open>from_backing\<close> establishes and no method changes: the cluster size is a power of two in the
  range of the format, and the two derived fields of the geometry agree with it.
\<close>

definition reader_cb :: "'b qcow2_reader \<Rightarrow> nat" where
  "reader_cb r = trailing_zeros (cluster_size r)"

definition reader_wf :: "'b qcow2_reader \<Rightarrow> bool" where
  "reader_wf r \<longleftrightarrow> 9 \<le> reader_cb r \<and> reader_cb r \<le> 20 \<and>
     cluster_size r = 2 ^ reader_cb r \<and>
     l2_bits r = of_nat (reader_cb r - 3) \<and> l2_mask r = mask (reader_cb r - 3) \<and>
     length (l1_table r) \<le> 2 ^ 20"

definition reader_inv :: "('b \<Rightarrow> bool) \<Rightarrow> 'b qcow2_reader \<Rightarrow> bool" where
  "reader_inv ok r \<longleftrightarrow> reader_wf r \<and> ok (backing r)"

text \<open>A state of the reader that differs from \<open>r\<close> in its backing only.\<close>

definition same_reader :: "('b \<Rightarrow> bool) \<Rightarrow> 'b qcow2_reader \<Rightarrow> 'b qcow2_reader \<Rightarrow> bool" where
  "same_reader ok r s \<longleftrightarrow> ok (backing s) \<and> s = r\<lparr>backing := backing s\<rparr>"

lemma same_reader_fields:
  assumes "same_reader ok r s"
  shows "virtual_disk_size s = virtual_disk_size r" and "cluster_size s = cluster_size r"
    and "l1_table s = l1_table r" and "l2_bits s = l2_bits r" and "l2_mask s = l2_mask r"
    and "rpos s = rpos r" and "ok (backing s)"
proof -
  have s: "s = r\<lparr>backing := backing s\<rparr>" and "ok (backing s)"
    using assms by (auto simp: same_reader_def)
  then show "ok (backing s)" by blast
  show "virtual_disk_size s = virtual_disk_size r" "cluster_size s = cluster_size r"
    "l1_table s = l1_table r" "l2_bits s = l2_bits r" "l2_mask s = l2_mask r" "rpos s = rpos r"
    by (subst s, simp)+
qed

lemma same_reader_wf: "same_reader ok r s \<Longrightarrow> reader_wf s \<longleftrightarrow> reader_wf r"
  by (simp add: reader_wf_def reader_cb_def same_reader_fields)

lemma same_reader_refl: "ok (backing r) \<Longrightarrow> same_reader ok r r"
  by (simp add: same_reader_def)

section \<open>The geometry in numbers\<close>

lemma bit_2_power_u64: "bit (2 ^ k :: u64) i \<longleftrightarrow> i = k \<and> k < 64"
  by (auto simp: bit_exp_iff)

lemma trailing_zeros_2_power: "k < 64 \<Longrightarrow> trailing_zeros (2 ^ k) = k"
proof -
  assume k: "k < 64"
  then have "[0..<64] = [0..<k] @ k # [Suc k..<64]"
    by (metis upt_add_eq_append le_add1 le_add_diff_inverse less_imp_le upt_conv_Cons zero_le)
  moreover have "takeWhile (\<lambda>i. i \<noteq> k) [0..<k] = [0..<k]"
    by (rule takeWhile_eq_all_conv [THEN iffD2]) simp
  ultimately show ?thesis
    using k by (simp add: trailing_zeros_def bit_2_power_u64 takeWhile_append)
qed

lemma wf_cb: "reader_wf r \<Longrightarrow> 9 \<le> reader_cb r" "reader_wf r \<Longrightarrow> reader_cb r \<le> 20"
  by (simp_all add: reader_wf_def)

lemma wf_cluster_size: "reader_wf r \<Longrightarrow> unat (cluster_size r) = 2 ^ reader_cb r"
  using unat_2_power [of "reader_cb r"] by (auto simp: reader_wf_def)

lemma wf_cluster_mask: "reader_wf r \<Longrightarrow> sub_chk (cluster_size r) 1 = Ok (mask (reader_cb r))"
  using wf_cluster_size [of r] power_2_minus_1 [of "reader_cb r"]
  by (auto simp: reader_wf_def sub_chk_def word_le_nat_alt)

section \<open>The lookup without its overflow checks\<close>

text \<open>
  On a well-formed reader none of the checked operations of the lookup overflows: the lookup is
  the selection of an L1 entry, the read of one L2 entry and its classification.
\<close>

definition l1_slot :: "'b qcow2_reader \<Rightarrow> u64 \<Rightarrow> u64" where
  "l1_slot r vo =
     (case get_at (l1_table r) (unat vo div 2 ^ (reader_cb r + (reader_cb r - 3))) of
        Some e \<Rightarrow> e | None \<Rightarrow> 0) AND mask 63"

definition l2_slot :: "'b qcow2_reader \<Rightarrow> u64 \<Rightarrow> u64" where
  "l2_slot r vo =
     l1_slot r vo + of_nat (8 * ((unat vo div 2 ^ reader_cb r) mod 2 ^ (reader_cb r - 3)))"

lemma unat_l1_slot: "unat (l1_slot r vo) < 2 ^ 63"
  by (simp add: l1_slot_def unat_and_mask)

lemma mask_63: "mask 63 = (0x7FFFFFFFFFFFFFFF :: u64)" and mask_62: "mask 62 = (0x3FFFFFFFFFFFFFFF :: u64)"
  by (simp_all add: mask_eq_exp_minus_1)

lemma l2_slot_no_overflow:
  assumes "reader_wf r"
  shows "unat (l2_slot r vo)
      = unat (l1_slot r vo) + 8 * ((unat vo div 2 ^ reader_cb r) mod 2 ^ (reader_cb r - 3))"
proof -
  define i where "i = (unat vo div 2 ^ reader_cb r) mod 2 ^ (reader_cb r - 3)"
  have "i < 2 ^ (reader_cb r - 3)" by (simp add: i_def)
  also have "(2 :: nat) ^ (reader_cb r - 3) \<le> 2 ^ 17"
    using wf_cb [OF assms] by (intro power_increasing) auto
  finally have i: "8 * i < 2 ^ 20" by simp
  then have "unat (of_nat (8 * i) :: u64) = 8 * i"
    by (simp only: unat_of_nat) simp
  then show ?thesis
    using i unat_l1_slot [of r vo] by (simp only: l2_slot_def i_def [symmetric] unat_word_ariths) simp
qed

lemma cluster_ref_for_eq:
  assumes wf: "reader_wf r"
  shows "cluster_ref_for V vo r =
    (if l1_slot r vo = 0 then (Ok Unallocated, r)
     else st_bind (on_backing (read_exact_at V (l2_slot r vo) 8))
            (\<lambda>bs. st_lift (classify_l2_entry (of_nat (reader_cb r)) (from_be bs))) r)"
proof -
  let ?cb = "reader_cb r"
  note cb = wf_cb [OF wf]
  have tz: "trailing_zeros (cluster_size r) = ?cb" by (simp add: reader_cb_def)
  have s1: "shr_chk vo (of_nat ?cb) = Ok (drop_bit ?cb vo)"
    using cb by (intro shr_chk_of_nat) simp
  have s2: "shr_chk (drop_bit ?cb vo) (l2_bits r) = Ok (drop_bit (?cb - 3) (drop_bit ?cb vo))"
  proof -
    have "l2_bits r = of_nat (?cb - 3)" using wf by (simp only: reader_wf_def)
    then show ?thesis using cb by (simp only: shr_chk_of_nat)
  qed
  have i1: "unat (drop_bit (?cb - 3) (drop_bit ?cb vo)) = unat vo div 2 ^ (?cb + (?cb - 3))"
    by (simp only: unat_drop_bit_u64 power_add div_mult2_eq)
  have l1: "(case get_at (l1_table r) (unat (drop_bit (?cb - 3) (drop_bit ?cb vo))) of
      Some e \<Rightarrow> e | None \<Rightarrow> 0) AND 0x7FFFFFFFFFFFFFFF = l1_slot r vo"
    by (simp only: i1 l1_slot_def mask_63)
  define i where "i = (unat vo div 2 ^ ?cb) mod 2 ^ (?cb - 3)"
  have i2: "unat (drop_bit ?cb vo AND l2_mask r) = i"
    using wf by (simp only: reader_wf_def unat_and_mask unat_drop_bit_u64 i_def)
  have "i < 2 ^ (?cb - 3)" by (simp add: i_def)
  also have "(2 :: nat) ^ (?cb - 3) \<le> 2 ^ 17" using cb by (intro power_increasing) auto
  finally have i: "8 * i < 2 ^ 20" by simp
  have "unat (of_nat i :: u64) = i" using i by (simp only: unat_of_nat) simp
  then have x: "drop_bit ?cb vo AND l2_mask r = of_nat i"
    by (simp only: word_unat_eq_iff i2)
  have m: "mul_chk (drop_bit ?cb vo AND l2_mask r) 8 = Ok (of_nat (8 * i))"
    using i by (simp only: mul_chk_def i2) (simp add: x)
  have u: "unat (of_nat (8 * i) :: u64) = 8 * i" using i by (simp only: unat_of_nat) simp
  have a: "add_chk (l1_slot r vo) (of_nat (8 * i)) = Ok (l2_slot r vo)"
    using unat_l1_slot [of r vo] i u by (simp add: add_chk_def l2_slot_def i_def)
  show ?thesis
    by (cases "l1_slot r vo = 0")
       (simp_all only: cluster_ref_for_def st_with_apply Let_def tz s1 s2 l1 m a st_bind_lift_Ok
         if_True if_False st_ret_apply simp_thms)
qed

section \<open>The classification of an L2 entry in numbers\<close>

text \<open>
  An L2 entry as the format describes it: bit 62 marks a compressed cluster, whose low
  \<open>63 - cluster_bits\<close> bits are a byte offset and whose next \<open>cluster_bits - 1\<close> bits count
  512-byte sectors, less one; bit 0 is the zero flag; the low 62 bits are the offset of a
  standard cluster, 0 for none.
\<close>

definition entry_meaning :: "nat \<Rightarrow> u64 \<Rightarrow> cluster_ref" where
  "entry_meaning cb e =
    (if bit e 62 then
       Compressed (of_nat (unat e mod 2 ^ (63 - cb)))
         (512 * (unat e div 2 ^ (63 - cb) mod 2 ^ (cb - 1) + 1))
     else if odd (unat e) then ZeroCluster
     else if unat e mod 2 ^ 62 = 0 then Unallocated
     else Normal (of_nat (unat e mod 2 ^ 62)))"

lemma compressed_ref_eq:
  assumes "9 \<le> cb" and "cb \<le> 20"
  shows "compressed_ref (of_nat cb) e =
    Ok (Compressed (of_nat (unat e mod 2 ^ (63 - cb)))
         (512 * (unat e div 2 ^ (63 - cb) mod 2 ^ (cb - 1) + 1)))"
proof -
  define k where "k = unat e div 2 ^ (63 - cb) mod 2 ^ (cb - 1)"
  define n where "n = k + 1"
  have c63: "sub_chk 63 (of_nat cb) = Ok (of_nat (63 - cb) :: u32)"
    using sub_chk_of_nat [of cb 63] assms by simp
  have c1: "sub_chk (of_nat cb) 1 = Ok (of_nat (cb - 1) :: u32)"
    using sub_chk_of_nat [of 1 cb] assms by simp
  have sh: "shl_chk 1 (of_nat (cb - 1)) = Ok (2 ^ (cb - 1) :: u64)"
    "shl_chk 1 (of_nat (63 - cb)) = Ok (2 ^ (63 - cb) :: u64)"
    "shr_chk e (of_nat (63 - cb)) = Ok (drop_bit (63 - cb) e)"
    using assms by (intro shl_chk_of_nat shr_chk_of_nat; simp)+
  have m: "sub_chk (2 ^ (cb - 1)) 1 = Ok (mask (cb - 1) :: u64)"
    "sub_chk (2 ^ (63 - cb)) 1 = Ok (mask (63 - cb) :: u64)"
    using assms by (intro sub_chk_2_power; simp)+
  have "k < 2 ^ (cb - 1)" by (simp add: k_def)
  also have "(2 :: nat) ^ (cb - 1) \<le> 2 ^ 19" using assms by (intro power_increasing) auto
  finally have k: "k < 2 ^ 19" .
  have field: "drop_bit (63 - cb) e AND mask (cb - 1) = of_nat k"
    by (simp only: and_mask_of_nat unat_drop_bit_u64 k_def)
  have uk: "unat (of_nat k :: u64) = k" using k by (simp only: unat_of_nat) simp
  have a: "add_chk (of_nat k) 1 = Ok (of_nat n :: u64)"
    using k by (simp only: add_chk_def uk) (simp add: n_def)
  have un: "unat (of_nat n :: u64) = n" using k by (simp only: unat_of_nat n_def) simp
  have b: "mul_chk (of_nat n) 512 = Ok (of_nat (512 * n) :: u64)"
    using k by (simp only: mul_chk_def un) (simp add: n_def)
  have u: "unat (of_nat (512 * n) :: u64) = 512 * n"
    using k by (simp only: unat_of_nat n_def) simp
  have o: "e AND mask (63 - cb) = of_nat (unat e mod 2 ^ (63 - cb))" by (rule and_mask_of_nat)
  show ?thesis
    by (simp only: compressed_ref_def c63 c1 and_then.simps sh m field a b u o) (simp only: n_def k_def)
qed

lemma classify_l2_entry_eq:
  assumes "9 \<le> cb" and "cb \<le> 20"
  shows "classify_l2_entry (of_nat cb) e = Ok (entry_meaning cb e)"
proof -
  define w :: u64 where "w = of_nat (unat e mod 2 ^ 62)"
  have o: "e AND 0x3FFFFFFFFFFFFFFF = w"
    by (simp only: mask_62 [symmetric] and_mask_of_nat w_def)
  have "unat w = unat e mod 2 ^ 62" by (simp only: o [symmetric] mask_62 [symmetric] unat_and_mask)
  then have z: "w = 0 \<longleftrightarrow> unat e mod 2 ^ 62 = 0"
    by (simp only: word_unat_eq_iff unat_0)
  show ?thesis
    by (cases "bit e 62"; cases "odd (unat e)"; cases "unat e mod 2 ^ 62 = 0")
       (simp_all only: classify_l2_entry_def and_bit_62 and_1_odd compressed_ref_eq [OF assms]
         Let_def o z entry_meaning_def w_def [symmetric] if_True if_False simp_thms)
qed

text \<open>The offsets and lengths of the meaning are bounded.\<close>

lemma entry_meaning_bounds:
  assumes "9 \<le> cb" and "cb \<le> 20"
  shows "case entry_meaning cb e of
      Normal off \<Rightarrow> unat off < 2 ^ 62
    | Compressed off len \<Rightarrow> unat off < 2 ^ (63 - cb) \<and> 0 < len \<and> len \<le> 2 ^ (cb + 8)
    | _ \<Rightarrow> True"
proof -
  have n: "unat (of_nat (unat e mod 2 ^ j) :: u64) < 2 ^ j" if "j < 64" for j
    using that unat_and_mask [of e j] by (simp only: and_mask_of_nat [symmetric]) simp
  have "unat e div 2 ^ (63 - cb) mod 2 ^ (cb - 1) < 2 ^ (cb - 1)" by simp
  then have "unat e div 2 ^ (63 - cb) mod 2 ^ (cb - 1) + 1 \<le> 2 ^ (cb - 1)"
    by (simp only: Suc_eq_plus1 [symmetric] Suc_le_eq)
  then have "512 * (unat e div 2 ^ (63 - cb) mod 2 ^ (cb - 1) + 1) \<le> 512 * 2 ^ (cb - 1)"
    by (rule mult_le_mono2)
  also have "(512 :: nat) * 2 ^ (cb - 1) = 2 ^ 9 * 2 ^ (cb - 1)" by simp
  also have "(2 :: nat) ^ 9 * 2 ^ (cb - 1) = 2 ^ (cb + 8)"
    using assms by (simp only: power_add [symmetric]) simp
  finally show ?thesis
    using n [of 62] n [of "63 - cb"] assms by (simp add: entry_meaning_def)
qed

lemma entry_meaning_Normal:
  "9 \<le> cb \<Longrightarrow> cb \<le> 20 \<Longrightarrow> entry_meaning cb e = Normal off \<Longrightarrow> unat off < 2 ^ 62"
  using entry_meaning_bounds [of cb e] by simp

section \<open>Reading without its overflow checks\<close>

text \<open>
  The piece a call serves: from the position to the end of the buffer, of the disk or of the
  cluster, whichever comes first.
\<close>

definition piece_len :: "'b qcow2_reader \<Rightarrow> nat \<Rightarrow> nat" where
  "piece_len r n = min (min n (unat (virtual_disk_size r) - unat (rpos r)))
     (2 ^ reader_cb r - unat (rpos r) mod 2 ^ reader_cb r)"

definition piece_off :: "'b qcow2_reader \<Rightarrow> u64" where
  "piece_off r = rpos r AND mask (reader_cb r)"

lemma unat_piece_off: "unat (piece_off r) = unat (rpos r) mod 2 ^ reader_cb r"
  by (simp only: piece_off_def unat_and_mask)

lemma piece_len_bounds:
  "piece_len r n \<le> n" "piece_len r n \<le> unat (virtual_disk_size r) - unat (rpos r)"
  "unat (piece_off r) + piece_len r n \<le> 2 ^ reader_cb r"
proof -
  have "unat (rpos r) mod 2 ^ reader_cb r < 2 ^ reader_cb r" by simp
  then show "unat (piece_off r) + piece_len r n \<le> 2 ^ reader_cb r"
    by (simp only: piece_len_def unat_piece_off)
qed (simp_all add: piece_len_def)

lemma piece_len_pos:
  "rpos r < virtual_disk_size r \<Longrightarrow> 0 < n \<Longrightarrow> 0 < piece_len r n"
  by (simp add: piece_len_def word_less_nat_alt)

lemma reader_read_end:
  "virtual_disk_size r \<le> rpos r \<or> n = 0 \<Longrightarrow> reader_read V inflate n r = (Ok [], r)"
  by (auto simp: reader_read_def st_simps)

lemma reader_read_eq:
  assumes wf: "reader_wf r" and "rpos r < virtual_disk_size r" and "0 < n"
  shows "reader_read V inflate n r =
    st_bind (st_bind (cluster_ref_for V (rpos r)) (read_cluster V inflate (piece_off r) (piece_len r n)))
      (\<lambda>bs. st_bind (advance (length bs)) (\<lambda>_. st_ret bs)) r"
proof -
  have c1: "sub_chk (virtual_disk_size r) (rpos r) = Ok (virtual_disk_size r - rpos r)"
    using assms(2) by (simp add: sub_chk_def)
  have u1: "unat (virtual_disk_size r - rpos r) = unat (virtual_disk_size r) - unat (rpos r)"
    using assms(2) by (simp add: unat_sub less_imp_le)
  have le: "piece_off r \<le> cluster_size r"
    using wf by (simp add: word_le_nat_alt unat_piece_off wf_cluster_size less_imp_le)
  then have c3: "sub_chk (cluster_size r) (piece_off r) = Ok (cluster_size r - piece_off r)"
    by (simp add: sub_chk_def)
  have u3: "unat (cluster_size r - piece_off r) = 2 ^ reader_cb r - unat (rpos r) mod 2 ^ reader_cb r"
    using unat_sub [OF le] by (simp only: wf_cluster_size [OF wf] unat_piece_off)
  have g: "\<not> (virtual_disk_size r \<le> rpos r \<or> n = 0)" using assms(2,3) by auto
  show ?thesis
    by (simp only: reader_read_def st_with_apply g if_False c1 wf_cluster_mask [OF wf]
        st_bind_lift_Ok Let_def piece_off_def [symmetric] c3 u1 u3 piece_len_def [symmetric]
        st_bind_assoc)
qed

lemma advance_Ok:
  assumes "unat (rpos r) + n < 2 ^ 64"
  shows "advance n r = (Ok (), r\<lparr>rpos := rpos r + of_nat n\<rparr>)"
    and "unat (rpos r + of_nat n) = unat (rpos r) + n"
proof -
  have u: "unat (of_nat n :: u64) = n" using assms by (simp only: unat_of_nat) simp
  then have a: "add_chk (rpos r) (of_nat n) = Ok (rpos r + of_nat n)"
    using assms by (simp only: add_chk_def) simp
  show "advance n r = (Ok (), r\<lparr>rpos := rpos r + of_nat n\<rparr>)"
    by (simp only: advance_def st_with_apply a st_bind_lift_Ok st_modify_apply)
  show "unat (rpos r + of_nat n) = unat (rpos r) + n"
    using assms u by (simp only: unat_word_ariths) simp
qed

section \<open>Opening without its overflow checks\<close>

definition reader_of :: "qcow2_header \<Rightarrow> u8 list \<Rightarrow> 'b \<Rightarrow> 'b qcow2_reader" where
  "reader_of h l1_buf b =
    (let cb = unat (h_cluster_bits h) in
     \<lparr>backing = b, virtual_disk_size = h_disk_size h, cluster_size = 2 ^ cb,
      l1_table = be_u64_table l1_buf, l2_bits = of_nat (cb - 3), l2_mask = mask (cb - 3),
      rpos = 0\<rparr>)"

lemma reader_of_simps [simp]:
  "backing (reader_of h buf b) = b" "rpos (reader_of h buf b) = 0"
  "virtual_disk_size (reader_of h buf b) = h_disk_size h"
  "l1_table (reader_of h buf b) = be_u64_table buf"
  by (simp_all add: reader_of_def Let_def)

definition open_l1 :: "'b read_seek_ops \<Rightarrow> qcow2_header \<Rightarrow> ('b, qcow2_error, 'b qcow2_reader) op" where
  "open_l1 V h =
     st_bind (st_map_err Io (read_exact_at V (h_l1_table_offset h) (8 * unat (h_l1_size h))))
       (\<lambda>l1_buf b. (Ok (reader_of h l1_buf b), b))"

lemma reader_of_wf:
  assumes "header_parse data = Ok h" and "length l1_buf \<le> 8 * 2 ^ 20"
  shows "reader_wf (reader_of h l1_buf b)"
    and "reader_cb (reader_of h l1_buf b) = unat (h_cluster_bits h)"
proof -
  have "unat (h_cluster_bits h) < 64" using header_parse_cluster_bits [OF assms(1)] by simp
  from trailing_zeros_2_power [OF this]
  show cb: "reader_cb (reader_of h l1_buf b) = unat (h_cluster_bits h)"
    by (simp add: reader_cb_def reader_of_def Let_def)
  show "reader_wf (reader_of h l1_buf b)"
    unfolding reader_wf_def cb using header_parse_cluster_bits [OF assms(1)] assms(2)
    by (simp add: reader_of_def Let_def length_be_u64_table)
qed

text \<open>On an accepted header the geometry is computed without overflow.\<close>

lemma header_geometry:
  assumes "header_parse data = Ok h"
  defines "cb \<equiv> unat (h_cluster_bits h)"
  shows "shl_chk 1 (h_cluster_bits h) = Ok (2 ^ cb :: u64)"
    and "sub_chk (h_cluster_bits h) 3 = Ok (of_nat (cb - 3))"
    and "sub_chk ((2 ^ cb :: u64) div 8) 1 = Ok (mask (cb - 3))"
proof -
  have cb: "9 \<le> cb" "cb \<le> 20" using header_parse_cluster_bits [OF assms(1)] by (auto simp: cb_def)
  have hc: "h_cluster_bits h = of_nat cb" by (simp add: cb_def)
  show "shl_chk 1 (h_cluster_bits h) = Ok (2 ^ cb :: u64)"
    unfolding hc using cb by (intro shl_chk_of_nat) simp
  show "sub_chk (h_cluster_bits h) 3 = Ok (of_nat (cb - 3))"
    unfolding hc using sub_chk_of_nat [of 3 cb] cb by simp
  have "unat ((2 ^ cb :: u64) div 8) = 2 ^ cb div 2 ^ 3"
    using cb by (simp add: unat_div unat_2_power)
  also have "\<dots> = (2 :: nat) ^ (cb - 3)" using cb by (intro power_diff [symmetric]) auto
  finally have d: "(2 ^ cb :: u64) div 8 = 2 ^ (cb - 3)"
    using cb by (simp only: word_unat_eq_iff unat_2_power)
  show "sub_chk ((2 ^ cb :: u64) div 8) 1 = Ok (mask (cb - 3))"
    unfolding d using cb by (intro sub_chk_2_power) simp
qed

lemma l1_guard: "MAX_L1_ENTRIES < n \<longleftrightarrow> \<not> unat n \<le> 2 ^ 20"
  by (simp add: MAX_L1_ENTRIES_def word_less_nat_alt not_le)

lemma l1_bytes:
  fixes n :: u32
  assumes "unat n \<le> 2 ^ 20"
  shows "mul_chk (ucast n) 8 = Ok (ucast n * 8 :: u64)"
    and "unat (ucast n * 8 :: u64) = 8 * unat n"
  using assms by (simp_all add: mul_chk_def unat_word_ariths unat_ucast_u32)

lemma from_backing_eq:
  "from_backing V = st_bind (st_map_err Io (read_window V 104)) (\<lambda>hdr_buf.
     case header_parse hdr_buf of
       Err e \<Rightarrow> st_err e
     | Panic \<Rightarrow> st_panic
     | Ok h \<Rightarrow> if unat (h_l1_size h) \<le> 2 ^ 20 then open_l1 V h
               else st_err (L1TableTooLarge (h_l1_size h)))"
  unfolding from_backing_def
proof (intro ext st_bind_cong)
  fix hdr_buf :: "u8 list" and s :: 'a
  show "st_bind (st_lift (header_parse hdr_buf)) (\<lambda>hdr.
      st_bind (st_lift (shl_chk 1 (h_cluster_bits hdr))) (\<lambda>cs.
      st_bind (st_lift (sub_chk (h_cluster_bits hdr) 3)) (\<lambda>bits.
      st_bind (st_lift (sub_chk (cs div 8) 1)) (\<lambda>mask.
      if MAX_L1_ENTRIES < h_l1_size hdr then st_err (L1TableTooLarge (h_l1_size hdr)) else
      st_bind (st_lift (mul_chk (ucast (h_l1_size hdr)) 8)) (\<lambda>l1_bytes.
      st_bind (st_map_err Io (read_exact_at V (h_l1_table_offset hdr) (unat (l1_bytes :: u64))))
        (\<lambda>l1_buf b.
          (Ok \<lparr>backing = b, virtual_disk_size = h_disk_size hdr, cluster_size = cs,
               l1_table = be_u64_table l1_buf, l2_bits = bits, l2_mask = mask, rpos = 0\<rparr>,
           b))))))) s
    = (case header_parse hdr_buf of
         Err e \<Rightarrow> st_err e
       | Panic \<Rightarrow> st_panic
       | Ok h \<Rightarrow> if unat (h_l1_size h) \<le> 2 ^ 20 then open_l1 V h
                 else st_err (L1TableTooLarge (h_l1_size h))) s"
  proof (cases "header_parse hdr_buf")
    case (Ok h)
    note g = header_geometry [OF Ok]
    show ?thesis
    proof (cases "unat (h_l1_size h) \<le> 2 ^ 20")
      case True
      note b = l1_bytes [OF True]
      show ?thesis
        by (simp only: Ok st_bind_lift_Ok g b l1_guard True simp_thms if_True if_False
            outcome.case open_l1_def reader_of_def Let_def)
    next
      case False
      show ?thesis
        by (simp only: Ok st_bind_lift_Ok g l1_guard False simp_thms if_True if_False outcome.case)
    qed
  qed (simp_all add: st_simps)
qed

section \<open>A reader never panics when it reads, whatever its backing does\<close>

context read_seek
begin

lemma on_backing_safe:
  assumes "op_safe inv m Q"
  shows "op_safe (same_reader inv r) (on_backing m) Q"
proof (rule op_safeI)
  fix s x t
  assume s: "same_reader inv r s" and "on_backing m s = (x, t)"
  then have x: "m (backing s) = (x, backing t)" and t: "t = s\<lparr>backing := backing t\<rparr>"
    by (auto simp: on_backing_def)
  from assms same_reader_fields(7) [OF s] x
  have "x \<noteq> Panic" "inv (backing t)" "\<forall>a. x = Ok a \<longrightarrow> Q a"
    by (auto dest: op_safeD)
  moreover have "t = r\<lparr>backing := backing t\<rparr>"
    using s t by (metis (no_types, lifting) same_reader_def qcow2_reader.surjective
        qcow2_reader.update_convs(1))
  ultimately show "x \<noteq> Panic \<and> same_reader inv r t \<and> (\<forall>a. x = Ok a \<longrightarrow> Q a)"
    by (simp add: same_reader_def)
qed

definition ref_ok :: "cluster_ref \<Rightarrow> bool" where
  "ref_ok c \<longleftrightarrow> (case c of Normal off \<Rightarrow> unat off < 2 ^ 62 | _ \<Rightarrow> True)"

lemma cluster_ref_for_safe:
  assumes wf: "reader_wf r"
  shows "op_safe (same_reader inv r) (cluster_ref_for V vo) ref_ok"
proof (rule op_safeI)
  fix s x t
  assume s: "same_reader inv r s" and eq: "cluster_ref_for V vo s = (x, t)"
  have ws: "reader_wf s" using s wf by (simp add: same_reader_wf)
  note cb = wf_cb [OF ws]
  have safe: "op_safe (same_reader inv r)
      (st_bind (on_backing (read_exact_at V (l2_slot s vo) 8))
        (\<lambda>bs. st_lift (classify_l2_entry (of_nat (reader_cb s)) (from_be bs)))) ref_ok"
    by (intro op_safe_bind [OF on_backing_safe [OF read_exact_at_safe]] op_safe_lift)
       (auto simp: classify_l2_entry_eq [OF cb] ref_ok_def split: cluster_ref.splits
         dest: entry_meaning_Normal [OF cb])
  show "x \<noteq> Panic \<and> same_reader inv r t \<and> (\<forall>a. x = Ok a \<longrightarrow> ref_ok a)"
  proof (cases "l1_slot s vo = 0")
    case True
    with eq s show ?thesis by (auto simp: cluster_ref_for_eq [OF ws] ref_ok_def)
  next
    case False
    with eq have "st_bind (on_backing (read_exact_at V (l2_slot s vo) 8))
        (\<lambda>bs. st_lift (classify_l2_entry (of_nat (reader_cb s)) (from_be bs))) s = (x, t)"
      by (simp add: cluster_ref_for_eq [OF ws])
    with op_safeD [OF safe s] show ?thesis by blast
  qed
qed

lemma decompress_cluster_safe:
  "op_safe (same_reader inv r) (decompress_cluster V inflate off len)
     (\<lambda>out. unat (cluster_size r) \<le> length out)"
  unfolding decompress_cluster_def
  by (rule op_safe_bind [OF on_backing_safe [OF read_window_at_safe]])
     (auto simp: same_reader_fields split: option.split
       intro!: op_safe_with op_safe_if op_safe_ret op_safe_err)

lemma read_cluster_safe:
  assumes wf: "reader_wf r" and "unat o1 + k \<le> 2 ^ reader_cb r" and "ref_ok c"
  shows "op_safe (same_reader inv r) (read_cluster V inflate o1 k c) (\<lambda>bs. length bs \<le> k)"
proof (cases c)
  case (Normal off)
  have "(2 :: nat) ^ reader_cb r \<le> 2 ^ 20" using wf_cb [OF wf] by (intro power_increasing) auto
  then have "unat off + unat o1 < 2 ^ 64"
    using assms(2,3) Normal by (simp add: ref_ok_def)
  then show ?thesis
    unfolding Normal read_cluster_def cluster_ref.case
    by (intro op_safe_bind [OF op_safe_lift [where Q = "\<lambda>_. True"]]
        op_safe_bind [OF on_backing_safe [OF seek_safe]] on_backing_safe read_safe)
       (simp_all add: add_chk_def)
next
  case (Compressed off len)
  have "op_safe (same_reader inv r)
      (st_lift (slice_chk out (unat o1) (unat o1 + k)) :: ('b qcow2_reader, io_error, u8 list) op)
      (\<lambda>bs. length bs \<le> k)" if "unat (cluster_size r) \<le> length out" for out
    using that assms(2) wf_cluster_size [OF wf]
    by (intro op_safe_lift) (auto simp: slice_chk_def get_range_def)
  then show ?thesis
    unfolding Compressed read_cluster_def cluster_ref.case
    by (rule op_safe_bind [OF decompress_cluster_safe])
qed (auto simp: read_cluster_def intro!: op_safe_ret)

lemma reader_read_safe: "op_safe (reader_inv inv) (reader_read V inflate n) (\<lambda>bs. length bs \<le> n)"
proof (rule op_safeI)
  fix r x t
  assume "reader_inv inv r" and eq: "reader_read V inflate n r = (x, t)"
  then have wf: "reader_wf r" and i: "inv (backing r)" by (auto simp: reader_inv_def)
  show "x \<noteq> Panic \<and> reader_inv inv t \<and> (\<forall>a. x = Ok a \<longrightarrow> length a \<le> n)"
  proof (cases "virtual_disk_size r \<le> rpos r \<or> n = 0")
    case True
    with eq wf i show ?thesis by (auto simp: reader_read_end reader_inv_def)
  next
    case False
    then have lt: "rpos r < virtual_disk_size r" and "0 < n" by auto
    have safe: "op_safe (same_reader inv r) (st_bind (cluster_ref_for V (rpos r))
        (read_cluster V inflate (piece_off r) (piece_len r n))) (\<lambda>bs. length bs \<le> piece_len r n)"
      using wf piece_len_bounds(3) [of r n]
      by (intro op_safe_bind [OF cluster_ref_for_safe] read_cluster_safe)
    note eq = eq [unfolded reader_read_eq [OF wf lt \<open>0 < n\<close>]]
    from eq show ?thesis
    proof (cases rule: st_bind_cases)
      case (ok bs s)
      note d = op_safeD [OF safe same_reader_refl [of inv, OF i] ok(1)]
      then have l: "length bs \<le> piece_len r n" by blast
      note f = same_reader_fields [OF d(2)]
      have "unat (rpos s) + length bs < 2 ^ 64"
        using l piece_len_bounds(2) [of r n] lt
          unsigned_less [of "virtual_disk_size r", where 'a = nat]
        by (simp add: f word_less_nat_alt)
      from advance_Ok(1) [OF this] ok(2)
      have "x = Ok bs" and "t = s\<lparr>rpos := rpos s + of_nat (length bs)\<rparr>"
        by (auto simp: st_bind_def st_simps)
      moreover have "reader_wf t"
        using d(2) wf calculation(2) by (simp add: reader_wf_def reader_cb_def f)
      ultimately show ?thesis
        using l piece_len_bounds(1) [of r n] f by (auto simp: reader_inv_def)
    next
      case (err e)
      with op_safeD [OF safe same_reader_refl [of inv, OF i]] wf show ?thesis
        by (fastforce simp: reader_inv_def same_reader_wf same_reader_fields)
    next
      case panic
      with op_safeD [OF safe same_reader_refl [of inv, OF i]] show ?thesis by blast
    qed
  qed
qed

lemma reader_seek_start_safe: "op_safe (reader_inv inv) (reader_seek (SeekStart off)) (\<lambda>_. True)"
  by (auto simp: op_safe_def reader_seek_def st_simps reader_inv_def reader_wf_def reader_cb_def)

lemma reader_seek_safe:
  assumes "reader_inv inv r" and "reader_seek target r = (x, t)"
  shows "reader_inv inv t"
proof (cases "reader_seek_target target r :: (io_error, i64) outcome")
qed (use assms in \<open>auto simp: reader_seek_def st_simps reader_inv_def reader_wf_def
      reader_cb_def split: if_splits\<close>)

text \<open>Opening: no panic on any bytes, and a reader in its invariant, positioned at 0.\<close>

lemma open_l1_safe:
  assumes "header_parse hdr_buf = Ok h" and "unat (h_l1_size h) \<le> 2 ^ 20"
    and "inv b1" and "open_l1 V h b1 = (x, b')"
  shows "x \<noteq> Panic \<and> inv b' \<and> (\<forall>r. x = Ok r \<longrightarrow> reader_inv inv r \<and> rpos r = 0)"
  using assms(4) unfolding open_l1_def
proof (cases rule: st_bind_cases)
  case (ok l1_buf b2)
  note e = op_safeD [OF op_safe_map_err [OF read_exact_at_safe] assms(3) ok(1)]
  from e(3) have "length l1_buf = 8 * unat (h_l1_size h)" by blast
  with reader_of_wf [OF assms(1), of l1_buf b2] assms(2) ok(2) e(2) show ?thesis
    by (auto simp: reader_inv_def)
next
  case (err e)
  with op_safeD [OF op_safe_map_err [OF read_exact_at_safe] assms(3)] show ?thesis by blast
next
  case panic
  with op_safeD [OF op_safe_map_err [OF read_exact_at_safe] assms(3)] show ?thesis by blast
qed

lemma from_backing_safe:
  assumes "inv b" and "from_backing V b = (x, b')"
  shows "x \<noteq> Panic \<and> inv b' \<and> (\<forall>r. x = Ok r \<longrightarrow> reader_inv inv r \<and> rpos r = 0)"
  using assms(2) unfolding from_backing_eq
proof (cases rule: st_bind_cases)
  case (ok hdr_buf b1)
  note w = op_safeD [OF op_safe_map_err [OF read_window_safe] assms(1) ok(1)]
  show ?thesis
  proof (cases "header_parse hdr_buf")
    case (Ok h)
    note o = ok(2) [unfolded Ok outcome.case]
    show ?thesis
    proof (cases "unat (h_l1_size h) \<le> 2 ^ 20")
      case True
      with o have "open_l1 V h b1 = (x, b')" by simp
      from open_l1_safe [OF Ok True w(2) this] show ?thesis .
    next
      case False
      with o w(2) show ?thesis by (auto simp: st_simps)
    qed
  next
    case (Err e)
    with ok(2) w(2) show ?thesis by (auto simp: st_simps)
  next
    case Panic
    with header_parse_no_panic show ?thesis by blast
  qed
next
  case (err e)
  with op_safeD [OF op_safe_map_err [OF read_window_safe] assms(1)] show ?thesis by blast
next
  case panic
  with op_safeD [OF op_safe_map_err [OF read_window_safe] assms(1)] show ?thesis by blast
qed

end

section \<open>The life of a reader\<close>

text \<open>
  The states a reader goes through: opened from a backing, then any sequence of reads and seeks,
  whatever they return (a seek that panics takes the program down, so nothing follows it).
\<close>

inductive reader_reach ::
  "'b read_seek_ops \<Rightarrow> (u8 list \<Rightarrow> u8 list option) \<Rightarrow> 'b \<Rightarrow> 'b qcow2_reader \<Rightarrow> bool"
  for V inflate b where
  opened: "open_reader V b = Ok r \<Longrightarrow> reader_reach V inflate b r"
| after_read: "reader_reach V inflate b r \<Longrightarrow> reader_read V inflate n r = (x, t)
    \<Longrightarrow> reader_reach V inflate b t"
| after_seek: "reader_reach V inflate b r \<Longrightarrow> reader_seek target r = (x, t) \<Longrightarrow> x \<noteq> Panic
    \<Longrightarrow> reader_reach V inflate b t"

context read_seek
begin

lemma reader_reach_inv: "reader_reach V inflate b r \<Longrightarrow> inv b \<Longrightarrow> reader_inv inv r"
proof (induction rule: reader_reach.induct)
  case (opened r)
  then show ?case
    using from_backing_safe [of b "Ok r" "snd (from_backing V b)"]
    by (simp add: open_reader_def prod_eq_iff)
next
  case (after_read r n x t)
  then show ?case using op_safeD(2) [OF reader_read_safe] by blast
next
  case (after_seek r target x t)
  then show ?case using reader_seek_safe by blast
qed

end

section \<open>A reader satisfies the first contract itself\<close>

locale any_reader = read_seek V inv
  for V :: "'b read_seek_ops" and inv :: "'b \<Rightarrow> bool" +
  fixes inflate :: "u8 list \<Rightarrow> u8 list option"
begin

sublocale reader: read_seek "reader_ops V inflate" "reader_inv inv"
  by unfold_locales (simp_all add: reader_ops_def reader_read_safe reader_seek_start_safe)

end

interpretation file_reader: any_reader file_ops medium_ok inflate for inflate
  by unfold_locales

interpretation cursor_reader: any_reader cursor_ops medium_ok inflate for inflate
  by unfold_locales

end
