(* ===== verification/Guest.thy ===== *)
theory Guest
  imports Reader
begin

text \<open>
  What a reader promises: the guest's view of an image.  \<open>guest_byte\<close> says in plain arithmetic
  which byte the guest disk has at an offset, from the bytes of the image and its L1 table;
  \<open>reader_read\<close> is shown to serve exactly those bytes, over any source that serves fixed bytes in
  pieces of any size.  So a reader is itself such a source (a \<open>sublocale\<close>), and what is proved of
  the loops over a source holds of the loops over a reader.
\<close>

section \<open>The guest disk, specified\<close>

text \<open>The L1 entry of an offset, the reserved top bit dropped; an index past the table reads 0.\<close>

definition guest_l1 :: "nat \<Rightarrow> u64 list \<Rightarrow> nat \<Rightarrow> nat" where
  "guest_l1 cb l1 off =
     (let i = off div 2 ^ (2 * cb - 3) in if i < length l1 then unat (l1 ! i) mod 2 ^ 63 else 0)"

text \<open>What the L2 entry of an offset says; \<open>None\<close> when the entry lies outside the image.\<close>

definition guest_ref :: "nat \<Rightarrow> u64 list \<Rightarrow> u8 list \<Rightarrow> nat \<Rightarrow> cluster_ref option" where
  "guest_ref cb l1 img off =
     (let l2 = guest_l1 cb l1 off;
          p = l2 + 8 * (off div 2 ^ cb mod 2 ^ (cb - 3))
      in if l2 = 0 then Some Unallocated
         else if p + 8 \<le> length img then Some (entry_meaning cb (from_be (take 8 (drop p img))))
         else None)"

text \<open>The byte a reference gives at an offset into its cluster; \<open>None\<close> when there is none.\<close>

definition cluster_byte ::
  "(u8 list \<Rightarrow> u8 list option) \<Rightarrow> nat \<Rightarrow> u8 list \<Rightarrow> cluster_ref \<Rightarrow> nat \<Rightarrow> u8 option" where
  "cluster_byte inflate cb img c i =
     (case c of
        Unallocated \<Rightarrow> Some 0
      | ZeroCluster \<Rightarrow> Some 0
      | Normal off \<Rightarrow> get_at img (unat off + i)
      | Compressed off len \<Rightarrow>
          (case inflate (take len (drop (unat off) img)) of
             None \<Rightarrow> None
           | Some out \<Rightarrow> get_at (out @ replicate (2 ^ cb) 0) i))"

definition guest_byte ::
  "(u8 list \<Rightarrow> u8 list option) \<Rightarrow> nat \<Rightarrow> u64 list \<Rightarrow> u8 list \<Rightarrow> nat \<Rightarrow> u8 option" where
  "guest_byte inflate cb l1 img off =
     (case guest_ref cb l1 img off of
        None \<Rightarrow> None
      | Some c \<Rightarrow> cluster_byte inflate cb img c (off mod 2 ^ cb))"

text \<open>All the offsets of one cluster have one reference.\<close>

lemma guest_ref_same_cluster:
  assumes "3 \<le> cb" and "off div 2 ^ cb = off' div 2 ^ cb"
  shows "guest_ref cb l1 img off = guest_ref cb l1 img off'"
proof -
  have "2 * cb - 3 = cb + (cb - 3)" using assms(1) by simp
  then have "off div 2 ^ (2 * cb - 3) = off' div 2 ^ (2 * cb - 3)"
    by (simp only: power_add div_mult2_eq assms(2))
  then show ?thesis by (simp add: guest_ref_def guest_l1_def assms(2))
qed

lemma guest_byte_in_cluster:
  assumes "3 \<le> cb" and "off mod 2 ^ cb + i < 2 ^ cb"
  shows "guest_byte inflate cb l1 img (off + i) =
    (case guest_ref cb l1 img off of
       None \<Rightarrow> None
     | Some c \<Rightarrow> cluster_byte inflate cb img c (off mod 2 ^ cb + i))"
proof -
  define q where "q = off div 2 ^ cb"
  have o: "off + i = q * 2 ^ cb + (off mod 2 ^ cb + i)"
    unfolding q_def add.assoc [symmetric] div_mult_mod_eq ..
  have "(off + i) div 2 ^ cb = off div 2 ^ cb" and m: "(off + i) mod 2 ^ cb = off mod 2 ^ cb + i"
    by (subst o, use assms(2) in \<open>simp add: q_def\<close>)+
  from guest_ref_same_cluster [OF assms(1) this(1)] m show ?thesis
    by (simp only: guest_byte_def)
qed

text \<open>The lookup's selection of the two table slots agrees with the specification.\<close>

lemma l1_slot_guest:
  assumes "reader_wf r"
  shows "unat (l1_slot r vo) = guest_l1 (reader_cb r) (l1_table r) (unat vo)"
proof -
  have "reader_cb r + (reader_cb r - 3) = 2 * reader_cb r - 3" using wf_cb [OF assms] by simp
  then show ?thesis
    by (simp add: l1_slot_def unat_and_mask guest_l1_def Let_def get_at_def)
qed

lemma l1_slot_0_guest:
  assumes "reader_wf r"
  shows "l1_slot r vo = 0 \<longleftrightarrow> guest_l1 (reader_cb r) (l1_table r) (unat vo) = 0"
  by (simp add: l1_slot_guest [OF assms, symmetric] unat_eq_0)

lemma same_reader_backing:
  assumes "same_reader ok r s" and "ok b"
  shows "same_reader ok r (s\<lparr>backing := b\<rparr>)"
proof -
  obtain b' where "s = r\<lparr>backing := b'\<rparr>" using assms(1) by (auto simp: same_reader_def)
  with assms(2) show ?thesis by (simp add: same_reader_def)
qed

lemma same_reader_new: "ok b \<Longrightarrow> same_reader ok r (r\<lparr>backing := b\<rparr>)"
  by (simp add: same_reader_def)

section \<open>Reading serves the guest disk\<close>

text \<open>
  \<open>served f p k x\<close>: a call that may return up to \<open>k\<close> bytes of \<open>f\<close> from \<open>p\<close> on returned some of
  them, at least one unless there is none at \<open>p\<close>; it failed only where there is none at \<open>p\<close>.
\<close>

definition served :: "(nat \<Rightarrow> u8 option) \<Rightarrow> nat \<Rightarrow> nat \<Rightarrow> ('e, u8 list) outcome \<Rightarrow> bool" where
  "served f p k x =
     (case x of
        Ok bs \<Rightarrow> length bs \<le> k \<and> (\<forall>i<length bs. f (p + i) = Some (bs ! i)) \<and> (bs = [] \<longrightarrow> f p = None)
      | Err e \<Rightarrow> f p = None
      | Panic \<Rightarrow> False)"

lemma served_cong:
  "(\<And>i. i < k \<Longrightarrow> f (p + i) = g (q + i)) \<Longrightarrow> 0 < k \<Longrightarrow> served f p k x = served g q k x"
  using order.strict_trans2 [of _ _ k]
  by (fastforce simp: served_def split: outcome.split)

lemma served_Ok_piece:
  assumes "bs = take (length bs) (drop p xs)" and "length bs \<le> k" and "p < length xs \<Longrightarrow> bs \<noteq> []"
  shows "served (get_at xs) p k (Ok bs)"
proof -
  have l: "length bs \<le> length xs - p" using arg_cong [OF assms(1), of length] by simp
  have "bs ! i = xs ! (p + i)" if "i < length bs" for i
    by (subst assms(1)) (use that l in simp)
  with l assms(2,3) show ?thesis by (auto simp: served_def get_at_def)
qed

text \<open>
  \<open>readable_run f p n\<close>: the bytes of \<open>f\<close> from \<open>p\<close> on, at most \<open>n\<close> of them, up to the first that is
  missing.  \<open>run_outcome\<close>: a call that wanted \<open>n\<close> bytes returned all of that run, or it failed and
  there was a byte missing.
\<close>

fun readable_run :: "(nat \<Rightarrow> u8 option) \<Rightarrow> nat \<Rightarrow> nat \<Rightarrow> u8 list" where
  "readable_run f p 0 = []"
| "readable_run f p (Suc n) = (case f p of None \<Rightarrow> [] | Some x \<Rightarrow> x # readable_run f (Suc p) n)"

definition run_outcome :: "(nat \<Rightarrow> u8 option) \<Rightarrow> nat \<Rightarrow> nat \<Rightarrow> ('e, u8 list) outcome \<Rightarrow> bool" where
  "run_outcome f p n x =
     (case x of
        Ok bs \<Rightarrow> bs = readable_run f p n
      | Err e \<Rightarrow> length (readable_run f p n) < n
      | Panic \<Rightarrow> False)"

lemma readable_run_missing: "f p = None \<Longrightarrow> readable_run f p n = []"
  by (cases n) simp_all

lemma readable_run_append:
  "\<forall>i<length bs. f (p + i) = Some (bs ! i) \<Longrightarrow> length bs \<le> n \<Longrightarrow>
    readable_run f p n = bs @ readable_run f (p + length bs) (n - length bs)"
proof (induction bs arbitrary: p n)
  case (Cons b bs)
  from Cons.prems(2) obtain k where n: "n = Suc k" by (cases n) auto
  have "f p = Some b" using Cons.prems(1) by (metis add_0_right length_greater_0_conv list.distinct(1) nth_Cons_0)
  moreover have "f (Suc p + i) = Some (bs ! i)" if "i < length bs" for i
    using Cons.prems(1) [rule_format, of "Suc i"] that by simp
  ultimately show ?case using Cons.IH [of "Suc p" k] Cons.prems(2) n by simp
qed simp

lemma readable_run_all:
  "\<forall>i<n. f (p + i) \<noteq> None \<Longrightarrow> readable_run f p n = map (\<lambda>i. the (f i)) [p..<p + n]"
  using readable_run_append [of "map (\<lambda>i. the (f i)) [p..<p + n]" f p n] by simp

lemma run_outcome_append:
  assumes "\<forall>i<length bs. f (p + i) = Some (bs ! i)" and "length bs \<le> n"
    and "run_outcome f (p + length bs) (n - length bs) y"
  shows "run_outcome f p n (fst (st_bind (\<lambda>s. (y, s)) (\<lambda>cs. st_ret (bs @ cs)) u))"
  using assms(3) readable_run_append [OF assms(1,2)]
  by (cases y) (simp_all add: run_outcome_def st_bind_def st_simps less_diff_conv add.commute)

context byte_source
begin

text \<open>What a read leaves as it was.\<close>

definition same_image :: "'b qcow2_reader \<Rightarrow> 'b qcow2_reader \<Rightarrow> bool" where
  "same_image r t \<longleftrightarrow> reader_inv inv t \<and> content (backing t) = content (backing r) \<and>
     t = r\<lparr>backing := backing t, rpos := rpos t\<rparr>"

abbreviation byte_of :: "(u8 list \<Rightarrow> u8 list option) \<Rightarrow> 'b qcow2_reader \<Rightarrow> nat \<Rightarrow> u8 option" where
  "byte_of inflate r \<equiv> guest_byte inflate (reader_cb r) (l1_table r) (content (backing r))"

text \<open>A state in the course of a read: the reader with its backing moved about.\<close>

abbreviation mid_read :: "'b qcow2_reader \<Rightarrow> 'b qcow2_reader \<Rightarrow> bool" where
  "mid_read r \<equiv> same_reader (\<lambda>b. inv b \<and> content b = content (backing r)) r"

lemma cluster_ref_for_guest:
  assumes "reader_inv inv r"
  shows "\<exists>x s. cluster_ref_for V vo r = (x, s) \<and> mid_read r s \<and>
    (case guest_ref (reader_cb r) (l1_table r) (content (backing r)) (unat vo) of
       Some c \<Rightarrow> x = Ok c | None \<Rightarrow> \<exists>e. x = Err e)"
proof -
  have wf: "reader_wf r" and i: "inv (backing r)" using assms by (auto simp: reader_inv_def)
  note cb = wf_cb [OF wf]
  note slot = l2_slot_no_overflow [OF wf, of vo, unfolded l1_slot_guest [OF wf]]
  show ?thesis
  proof (cases "l1_slot r vo = 0")
    case True
    with i same_reader_refl [of "\<lambda>b. inv b \<and> content b = content (backing r)" r] show ?thesis
      by (simp add: cluster_ref_for_eq [OF wf] guest_ref_def Let_def l1_slot_0_guest [OF wf])
  next
    case False
    let ?p = "unat (l2_slot r vo)"
    from read_exact_at_spec [OF i, of 8 "l2_slot r vo"] obtain x b' where
      e: "read_exact_at V (l2_slot r vo) 8 (backing r) = (x, b')" and b': "inv b'"
        "content b' = content (backing r)"
      and x: "if ?p + 8 \<le> length (content (backing r))
        then x = Ok (take 8 (drop ?p (content (backing r)))) else \<exists>e. x = Err e"
      by auto
    have g: "guest_ref (reader_cb r) (l1_table r) (content (backing r)) (unat vo) =
        (if ?p + 8 \<le> length (content (backing r))
         then Some (entry_meaning (reader_cb r) (from_be (take 8 (drop ?p (content (backing r))))))
         else None)"
      using False by (simp add: guest_ref_def Let_def slot l1_slot_0_guest [OF wf])
    show ?thesis
      using False x b' unfolding g
      by (auto simp: cluster_ref_for_eq [OF wf] on_backing_def e st_bind_def st_simps
          same_reader_new classify_l2_entry_eq [OF cb])
  qed
qed

text \<open>A seek and one read serve the content.\<close>

lemma seek_read_served:
  assumes "inv b" and "0 < k"
  shows "\<exists>x b'. st_bind (dev_seek V (SeekStart off)) (\<lambda>_. dev_read V k) b = (x, b') \<and> inv b' \<and>
    content b' = content b \<and> served (get_at (content b)) (unat off) k x"
proof (cases "unat off < isize_limit")
  case True
  from seek_near [OF assms(1) this] obtain b1 where
    s: "dev_seek V (SeekStart off) b = (Ok off, b1)" "content b1 = content b" "pos b1 = unat off"
    by blast
  from s(1) have i1: "inv b1" by (rule op_safeD(2) [OF seek_safe assms(1)])
  from read_pieceE [OF this, of k] obtain bs b2 where
    r: "dev_read V k b1 = (Ok bs, b2)" "inv b2" "length bs \<le> k"
      "bs = take (length bs) (drop (pos b1) (content b1))"
      "0 < k \<Longrightarrow> pos b1 < length (content b1) \<Longrightarrow> bs \<noteq> []" "content b2 = content b1"
    by metis
  have "served (get_at (content b)) (unat off) k (Ok bs :: (io_error, u8 list) outcome)"
    using r(3-5) assms(2) s(2,3) by (intro served_Ok_piece) auto
  with s r show ?thesis by (simp add: st_bind_def)
next
  case False
  then obtain r b1 where s: "dev_seek V (SeekStart off) b = (r, b1)" "content b1 = content b"
      and far: "case r of Ok _ \<Rightarrow> isize_limit \<le> pos b1 | _ \<Rightarrow> True"
    using seek_far [OF assms(1), of off] by auto
  have i1: "inv b1" and r: "r \<noteq> Panic" using op_safeD [OF seek_safe assms(1) s(1)] by auto
  have none: "get_at (content b) (unat off) = None"
    using False content_bound [OF assms(1)] by (simp add: get_at_def)
  show ?thesis
  proof (cases r)
    case (Ok x)
    from read_pieceE [OF i1, of k] obtain bs b2 where
      d: "dev_read V k b1 = (Ok bs, b2)" "inv b2"
        "bs = take (length bs) (drop (pos b1) (content b1))" "content b2 = content b1"
      by metis
    moreover from d(3) have "bs = []"
      using far Ok content_bound [OF i1] by simp
    ultimately show ?thesis using s Ok none by (simp add: st_bind_def served_def)
  qed (use s i1 r none in \<open>auto simp: st_bind_def served_def\<close>)
qed

lemma on_backing_bind:
  "st_bind (on_backing m) (\<lambda>a. on_backing (f a)) = on_backing (st_bind m f)"
  by (rule ext) (auto simp: st_bind_def on_backing_def split: prod.split outcome.split)

lemma on_backing_mid:
  assumes "mid_read r s"
    and "\<And>b. inv b \<Longrightarrow> content b = content (backing r) \<Longrightarrow>
      \<exists>x b'. m b = (x, b') \<and> inv b' \<and> content b' = content b \<and> Q x"
  shows "\<exists>x t. on_backing m s = (x, t) \<and> mid_read r t \<and> Q x"
proof -
  from same_reader_fields(7) [OF assms(1)] have "inv (backing s)"
    and c: "content (backing s) = content (backing r)" by auto
  from assms(2) [OF this] obtain x b' where "m (backing s) = (x, b')" "inv b'"
    "content b' = content (backing s)" "Q x" by blast
  with same_reader_backing [OF assms(1), of b'] c show ?thesis
    by (simp add: on_backing_def)
qed

definition ref_fits :: "cluster_ref \<Rightarrow> bool" where
  "ref_fits c \<longleftrightarrow>
     (case c of Normal off \<Rightarrow> unat off < 2 ^ 62 | Compressed off len \<Rightarrow> unat off < 2 ^ 63 | _ \<Rightarrow> True)"

lemma guest_ref_fits:
  assumes "9 \<le> cb" and "cb \<le> 20" and "guest_ref cb l1 img off = Some c"
  shows "ref_fits c"
proof -
  have "ref_fits (entry_meaning cb e)" for e
  proof -
    have "(2 :: nat) ^ (63 - cb) \<le> 2 ^ 63" by (intro power_increasing) auto
    with entry_meaning_bounds [OF assms(1,2), of e] show ?thesis
      by (auto simp: ref_fits_def split: cluster_ref.splits)
  qed
  then show ?thesis
    using assms(3) by (auto simp: guest_ref_def Let_def ref_fits_def split: if_splits)
qed

lemma decompress_cluster_guest:
  assumes s: "mid_read r s" and off: "unat off < 2 ^ 63" and wf: "reader_wf r"
  shows "\<exists>x t. decompress_cluster V inflate off len s = (x, t) \<and> mid_read r t \<and>
    (case inflate (take len (drop (unat off) (content (backing r)))) of
       None \<Rightarrow> x = Err InvalidData
     | Some out \<Rightarrow> x = Ok (out @ replicate (2 ^ reader_cb r - length out) 0))"
proof -
  have "\<exists>x t. on_backing (read_window_at V off len) s = (x, t) \<and> mid_read r t \<and>
      x = Ok (take len (drop (unat off) (content (backing r))))"
  proof (rule on_backing_mid [OF s])
    fix b
    assume "inv b" and "content b = content (backing r)"
    with read_window_at_spec [of b off len] off
    show "\<exists>x b'. read_window_at V off len b = (x, b') \<and> inv b' \<and> content b' = content b \<and>
        x = Ok (take len (drop (unat off) (content (backing r))))"
      by (auto simp: isize_limit_def)
  qed
  then obtain t where
    e: "on_backing (read_window_at V off len) s =
      (Ok (take len (drop (unat off) (content (backing r)))), t)" and t: "mid_read r t"
    by blast
  have cs: "unat (cluster_size t) = 2 ^ reader_cb r"
    using same_reader_fields(2) [OF t] wf_cluster_size [OF wf] by simp
  show ?thesis
    using t by (auto simp: decompress_cluster_def st_bind_Ok [where m = "on_backing _", OF e]
        st_simps cs split: option.split)
qed

lemma read_cluster_guest:
  assumes s: "mid_read r s" and wf: "reader_wf r" and fits: "ref_fits c"
    and k: "0 < k" and piece: "unat o1 + k \<le> 2 ^ reader_cb r"
  shows "\<exists>x t. read_cluster V inflate o1 k c s = (x, t) \<and> mid_read r t \<and>
    served (cluster_byte inflate (reader_cb r) (content (backing r)) c) (unat o1) k x"
proof (cases c)
  case (Normal off)
  have "(2 :: nat) ^ reader_cb r \<le> 2 ^ 20" using wf_cb [OF wf] by (intro power_increasing) auto
  then have lt: "unat off + unat o1 < 2 ^ 64"
    using piece fits Normal by (simp add: ref_fits_def)
  then have u: "unat (off + o1) = unat off + unat o1" by (intro unat_plus_no_overflow) simp
  let ?f = "cluster_byte inflate (reader_cb r) (content (backing r)) (Normal off)"
  have "\<exists>x t. on_backing (st_bind (dev_seek V (SeekStart (off + o1))) (\<lambda>_. dev_read V k)) s = (x, t) \<and>
      mid_read r t \<and> served ?f (unat o1) k x"
  proof (rule on_backing_mid [OF s])
    fix b
    assume b: "inv b" "content b = content (backing r)"
    have "served (get_at (content b)) (unat (off + o1)) k x \<longleftrightarrow> served ?f (unat o1) k x"
      for x :: "(io_error, u8 list) outcome"
      using b k by (intro served_cong) (simp_all add: u cluster_byte_def add.assoc)
    with seek_read_served [OF b(1) k, of "off + o1"]
    show "\<exists>x b'. st_bind (dev_seek V (SeekStart (off + o1))) (\<lambda>_. dev_read V k) b = (x, b') \<and>
        inv b' \<and> content b' = content b \<and> served ?f (unat o1) k x"
      by simp
  qed
  then show ?thesis
    using lt by (simp add: Normal read_cluster_def add_chk_def st_simps on_backing_bind)
next
  case (Compressed off len)
  let ?inf = "inflate (take len (drop (unat off) (content (backing r))))"
  from decompress_cluster_guest [OF s _ wf, of off inflate len] fits Compressed obtain x t where
    e: "decompress_cluster V inflate off len s = (x, t)" and t: "mid_read r t"
    and x: "case ?inf of None \<Rightarrow> x = Err InvalidData
        | Some out \<Rightarrow> x = Ok (out @ replicate (2 ^ reader_cb r - length out) 0)"
    by (auto simp: ref_fits_def)
  show ?thesis
  proof (cases ?inf)
    case None
    with e t x show ?thesis
      by (simp add: Compressed read_cluster_def st_bind_def served_def cluster_byte_def)
  next
    case (Some out)
    define buf where "buf = out @ replicate (2 ^ reader_cb r - length out) 0"
    have l: "2 ^ reader_cb r \<le> length buf" by (simp add: buf_def)
    have "served (cluster_byte inflate (reader_cb r) (content (backing r)) c) (unat o1) k
        (Ok (take k (drop (unat o1) buf)) :: (io_error, u8 list) outcome)"
      using l piece k
      by (auto simp: served_def Compressed cluster_byte_def Some get_at_def buf_def nth_append)
    with e t x l piece show ?thesis
      by (simp add: Compressed read_cluster_def st_bind_def st_simps Some buf_def [symmetric]
          slice_chk_def get_range_def)
  qed
qed (use s k in \<open>auto simp: read_cluster_def st_simps served_def cluster_byte_def\<close>)

text \<open>
  The refinement of a read: what it serves are the bytes of the guest disk at the position, a piece
  of them, and it fails (or stops short of the end of the disk) only where the guest disk has no
  byte.  The image, the tables and the geometry stay as they are, and the position moves by what
  was served.
\<close>

lemma reader_read_guest:
  assumes r: "reader_inv inv r" and lt: "rpos r < virtual_disk_size r" and n: "0 < n"
  shows "\<exists>x t. reader_read V inflate n r = (x, t) \<and> same_image r t \<and>
    unat (rpos t) = unat (rpos r) + (case x of Ok bs \<Rightarrow> length bs | _ \<Rightarrow> 0) \<and>
    served (byte_of inflate r) (unat (rpos r)) (piece_len r n) x"
proof -
  have wf: "reader_wf r" and i: "inv (backing r)" using r by (auto simp: reader_inv_def)
  note cb = wf_cb [OF wf]
  note k = piece_len_pos [OF lt n]
  let ?p = "unat (rpos r)" and ?k = "piece_len r n"
  from cluster_ref_for_guest [OF r, of "rpos r"] obtain x s where
    e1: "cluster_ref_for V (rpos r) r = (x, s)" and s: "mid_read r s"
    and x: "case guest_ref (reader_cb r) (l1_table r) (content (backing r)) ?p of
       Some c \<Rightarrow> x = Ok c | None \<Rightarrow> \<exists>e. x = Err e"
    by blast
  have mid: "same_image r t \<and> unat (rpos t) = ?p" if "mid_read r t" for t
  proof -
    note f = same_reader_fields [OF that]
    have "reader_wf t" using same_reader_wf [OF that] wf by simp
    moreover have "t = r\<lparr>backing := backing t\<rparr>" using that by (simp add: same_reader_def)
    then have "t = r\<lparr>backing := backing t, rpos := rpos t\<rparr>"
      using f(6) by (metis qcow2_reader.surjective qcow2_reader.update_convs(1,7))
    ultimately show ?thesis using f by (simp add: same_image_def reader_inv_def)
  qed
  show ?thesis
  proof (cases "guest_ref (reader_cb r) (l1_table r) (content (backing r)) ?p")
    case None
    with x obtain e where xe: "x = Err e" by auto
    have "byte_of inflate r ?p = None" using None by (simp add: guest_byte_def)
    with e1 xe mid [OF s] show ?thesis
      by (simp add: reader_read_eq [OF wf lt n] st_bind_def served_def)
  next
    case (Some c)
    with x have xc: "x = Ok c" by simp
    note piece = piece_len_bounds(3) [of r n]
    from read_cluster_guest [OF s wf guest_ref_fits [OF cb Some] k piece, of inflate]
    obtain y t where e2: "read_cluster V inflate (piece_off r) ?k c s = (y, t)" and t: "mid_read r t"
      and y: "served (cluster_byte inflate (reader_cb r) (content (backing r)) c)
        (unat (piece_off r)) ?k y"
      by blast
    have y: "served (byte_of inflate r) ?p ?k y"
    proof -
      have "byte_of inflate r (?p + i) =
          cluster_byte inflate (reader_cb r) (content (backing r)) c (unat (piece_off r) + i)"
        if "i < ?k" for i
        using guest_byte_in_cluster [of "reader_cb r" ?p i] that piece cb Some
        by (simp add: unat_piece_off)
      then have "served (byte_of inflate r) ?p ?k y \<longleftrightarrow>
          served (cluster_byte inflate (reader_cb r) (content (backing r)) c) (unat (piece_off r)) ?k y"
        using k by (rule served_cong)
      with y show ?thesis by blast
    qed
    show ?thesis
    proof (cases y)
      case (Ok bs)
      note f = same_reader_fields [OF t]
      have "length bs \<le> ?k" using y Ok by (simp add: served_def)
      then have "unat (rpos t) + length bs < 2 ^ 64"
        using piece_len_bounds(2) [of r n] lt f(6)
          unsigned_less [of "virtual_disk_size r", where 'a = nat]
        by (simp add: word_less_nat_alt)
      note a = advance_Ok [OF this]
      let ?t = "t\<lparr>rpos := rpos t + of_nat (length bs)\<rparr>"
      have e3: "reader_read V inflate n r = (Ok bs, ?t)"
        using e1 e2 xc Ok a(1) by (simp add: reader_read_eq [OF wf lt n] st_bind_def st_simps)
      have eqt: "t = r\<lparr>backing := backing t, rpos := rpos t\<rparr>" and it: "reader_inv inv t"
        and c: "content (backing t) = content (backing r)"
        using mid [OF t] by (simp_all add: same_image_def)
      have "reader_inv inv ?t" using it by (simp add: reader_inv_def reader_wf_def reader_cb_def)
      moreover have "?t = r\<lparr>backing := backing ?t, rpos := rpos ?t\<rparr>"
        by (subst eqt) simp
      ultimately have "same_image r ?t"
        using c by (simp add: same_image_def)
      with e3 a(2) f(6) y Ok show ?thesis by simp
    next
      case (Err e)
      with e1 e2 xc y mid [OF t] show ?thesis
        by (simp add: reader_read_eq [OF wf lt n] st_bind_def)
    qed (use y in \<open>simp add: served_def\<close>)
  qed
qed

lemma read_normal_Ok:
  assumes s: "mid_read r s" and wf: "reader_wf r" and fits: "unat off < 2 ^ 62"
    and piece: "unat o1 \<le> 2 ^ reader_cb r"
  shows "\<exists>bs t. read_cluster V inflate o1 k (Normal off) s = (Ok bs, t)"
proof -
  have "(2 :: nat) ^ reader_cb r \<le> 2 ^ 20" using wf_cb [OF wf] by (intro power_increasing) auto
  then have lt: "unat off + unat o1 < 2 ^ 63" using piece fits by simp
  then have u: "unat (off + o1) = unat off + unat o1" by (intro unat_plus_no_overflow) simp
  have "\<exists>x t. on_backing (st_bind (dev_seek V (SeekStart (off + o1))) (\<lambda>_. dev_read V k)) s = (x, t) \<and>
      mid_read r t \<and> (\<exists>bs. x = Ok bs)"
  proof (rule on_backing_mid [OF s])
    fix b
    assume b: "inv b" "content b = content (backing r)"
    have "unat (off + o1) < isize_limit" using lt u by (simp add: isize_limit_def)
    from seek_near [OF b(1) this] obtain b1 where
      e: "dev_seek V (SeekStart (off + o1)) b = (Ok (off + o1), b1)" "content b1 = content b" by blast
    from read_pieceE [OF op_safeD(2) [OF seek_safe b(1) e(1)], of k] obtain bs b2 where
      "dev_read V k b1 = (Ok bs, b2)" "inv b2" "content b2 = content b1" by blast
    with e show "\<exists>x b'. st_bind (dev_seek V (SeekStart (off + o1))) (\<lambda>_. dev_read V k) b = (x, b') \<and>
        inv b' \<and> content b' = content b \<and> (\<exists>bs. x = Ok bs)"
      by (simp add: st_bind_def)
  qed
  then show ?thesis
    using lt by (auto simp: read_cluster_def add_chk_def st_simps on_backing_bind)
qed

text \<open>A read in a cluster stored plainly is no error, wherever the cluster lies.\<close>

lemma reader_read_normal:
  assumes r: "reader_inv inv r" and lt: "rpos r < virtual_disk_size r" and n: "0 < n"
    and g: "guest_ref (reader_cb r) (l1_table r) (content (backing r)) (unat (rpos r)) = Some (Normal off)"
  shows "\<exists>bs t. reader_read V inflate n r = (Ok bs, t)"
proof -
  have wf: "reader_wf r" using r by (simp add: reader_inv_def)
  from cluster_ref_for_guest [OF r, of "rpos r"] g obtain s where
    e1: "cluster_ref_for V (rpos r) r = (Ok (Normal off), s)" and s: "mid_read r s" by auto
  have "unat off < 2 ^ 62" using guest_ref_fits [OF wf_cb [OF wf] g] by (simp add: ref_fits_def)
  moreover have "unat (piece_off r) \<le> 2 ^ reader_cb r" by (simp add: unat_piece_off less_imp_le)
  ultimately obtain bs t where
    e2: "read_cluster V inflate (piece_off r) (piece_len r n) (Normal off) s = (Ok bs, t)"
    using read_normal_Ok [OF s wf] by blast
  have "reader_read V inflate n r = st_bind (advance (length bs)) (\<lambda>_. st_ret bs) t"
    using e1 e2 by (simp add: reader_read_eq [OF wf lt n] st_bind_def)
  moreover have "fst (reader_read V inflate n r) \<noteq> Panic"
    using reader_read_guest [OF r lt n, of inflate] by (auto simp: served_def)
  ultimately show ?thesis
    by (auto simp: advance_def st_with_apply st_bind_def st_simps add_chk_def split: if_splits)
qed

end

section \<open>A loop over reads\<close>

context byte_source
begin

lemma same_image_refl: "reader_inv inv r \<Longrightarrow> same_image r r"
  by (simp add: same_image_def)

lemma same_image_trans: "same_image r s \<Longrightarrow> same_image s t \<Longrightarrow> same_image r t"
  by (cases r; cases s; cases t) (auto simp: same_image_def)

lemma same_image_fields:
  assumes "same_image r t"
  shows "reader_inv inv t" "content (backing t) = content (backing r)" "reader_cb t = reader_cb r"
    "l1_table t = l1_table r" "virtual_disk_size t = virtual_disk_size r"
proof -
  obtain b p where "t = r\<lparr>backing := b, rpos := p\<rparr>"
    using assms unfolding same_image_def by metis
  then show "reader_cb t = reader_cb r" "l1_table t = l1_table r" "virtual_disk_size t = virtual_disk_size r"
    by (simp_all add: reader_cb_def)
qed (use assms in \<open>auto simp: same_image_def\<close>)

text \<open>
  On any image a loop over reads collects the readable run from the position, cut at the end of
  the disk.
\<close>

lemma reader_window_run:
  assumes "reader_inv inv r"
  shows "\<exists>x t. read_window (reader_ops V inflate) n r = (x, t) \<and> same_image r t \<and>
    run_outcome (byte_of inflate r) (unat (rpos r))
      (min n (unat (virtual_disk_size r) - unat (rpos r))) x"
  using assms
proof (induction n arbitrary: r rule: less_induct)
  case (less n)
  let ?f = "byte_of inflate r" and ?p = "unat (rpos r)"
  let ?left = "unat (virtual_disk_size r) - ?p"
  note r = same_image_refl [OF less.prems]
  show ?case
  proof (cases "virtual_disk_size r \<le> rpos r \<or> n = 0")
    case True
    with r show ?thesis
      by (auto simp: read_window.simps [of _ n] reader_ops_def reader_read_end st_simps
          st_bind_def run_outcome_def word_le_nat_alt)
  next
    case False
    then have lt: "rpos r < virtual_disk_size r" and n: "0 < n" by auto
    note k = piece_len_pos [OF lt n] piece_len_bounds(1,2) [of r n]
    from reader_read_guest [OF less.prems lt n, of inflate] obtain x t where
      e: "dev_read (reader_ops V inflate) n r = (x, t)" and t: "same_image r t"
      and p: "unat (rpos t) = ?p + (case x of Ok bs \<Rightarrow> length bs | _ \<Rightarrow> 0)"
      and x: "served ?f ?p (piece_len r n) x"
      by (auto simp: reader_ops_def)
    have m: "0 < min n ?left" using lt n by (simp add: word_less_nat_alt)
    show ?thesis
    proof (cases x)
      case (Ok bs)
      with x have bs: "length bs \<le> piece_len r n" "\<forall>i<length bs. ?f (?p + i) = Some (bs ! i)"
        "bs = [] \<Longrightarrow> ?f ?p = None" by (auto simp: served_def)
      show ?thesis
      proof (cases "bs = []")
        case True
        with e t n Ok bs(3) show ?thesis
          by (simp add: read_window.simps [of _ n] st_bind_def st_simps run_outcome_def readable_run_missing)
      next
        case False
        with less.IH [of "n - length bs", OF _ same_image_fields(1) [OF t]] n obtain y u where
          y: "read_window (reader_ops V inflate) (n - length bs) t = (y, u)" "same_image t u"
            "run_outcome (byte_of inflate t) (unat (rpos t))
              (min (n - length bs) (unat (virtual_disk_size t) - unat (rpos t))) y"
          by (auto simp: less_diff_conv)
        have l: "length bs \<le> min n ?left" using bs(1) k by simp
        have "min (n - length bs) (unat (virtual_disk_size t) - unat (rpos t)) = min n ?left - length bs"
          using p Ok by (simp add: same_image_fields [OF t] diff_right_commute min_diff)
        with y(3) p Ok have "run_outcome ?f (?p + length bs) (min n ?left - length bs) y"
          by (simp add: same_image_fields [OF t])
        note run_outcome_append [OF bs(2) l this, of u]
        moreover have "read_window (reader_ops V inflate) n r = st_bind (\<lambda>s. (y, s)) (\<lambda>cs. st_ret (bs @ cs)) u"
          using e y(1) Ok False n bs(1) k by (simp add: read_window.simps [of _ n] st_bind_def st_simps)
        moreover have "snd (st_bind (\<lambda>s. (y, s)) (\<lambda>cs. st_ret (bs @ cs)) u) = u"
          by (simp add: st_bind_def st_simps split: outcome.split)
        ultimately show ?thesis using same_image_trans [OF t y(2)] by (metis prod.collapse)
      qed
    next
      case (Err err)
      with x have "?f ?p = None" by (simp add: served_def)
      with e t n m Err show ?thesis
        by (simp add: read_window.simps [of _ n] st_bind_def run_outcome_def readable_run_missing)
    qed (use x in \<open>simp add: served_def\<close>)
  qed
qed

end

section \<open>Opening an image\<close>

text \<open>The reader a header and the bytes of an image give.\<close>

definition opened_from ::
  "('b \<Rightarrow> bool) \<Rightarrow> ('b \<Rightarrow> u8 list) \<Rightarrow> u8 list \<Rightarrow> qcow2_header \<Rightarrow> 'b qcow2_reader \<Rightarrow> bool" where
  "opened_from ok content img h r \<longleftrightarrow> reader_inv ok r \<and> content (backing r) = img \<and>
     virtual_disk_size r = h_disk_size h \<and> reader_cb r = unat (h_cluster_bits h) \<and>
     l1_table r = be_u64_table (take (8 * unat (h_l1_size h)) (drop (unat (h_l1_table_offset h)) img)) \<and>
     rpos r = 0"

text \<open>
  What opening an image gives, from its bytes alone: the error of the header, the refusal of a
  large L1 table, the reader, or an I/O error when the image ends inside its L1 table.  (For an
  empty table past the end of the image the answer is the source's: a file refuses the seek.)
\<close>

definition open_result ::
  "('b \<Rightarrow> bool) \<Rightarrow> ('b \<Rightarrow> u8 list) \<Rightarrow> u8 list \<Rightarrow> (qcow2_error, 'b qcow2_reader) outcome \<Rightarrow> bool" where
  "open_result ok content img x =
     (case header_parse (take 104 img) of
        Err e \<Rightarrow> x = Err e
      | Panic \<Rightarrow> False
      | Ok h \<Rightarrow>
          if 2 ^ 20 < unat (h_l1_size h) then x = Err (L1TableTooLarge (h_l1_size h))
          else if unat (h_l1_table_offset h) + 8 * unat (h_l1_size h) \<le> length img
          then (case x of Ok r \<Rightarrow> opened_from ok content img h r | _ \<Rightarrow> False)
          else if h_l1_size h = 0
          then (case x of Ok r \<Rightarrow> opened_from ok content img h r | Err (Io e) \<Rightarrow> True | _ \<Rightarrow> False)
          else (case x of Err (Io e) \<Rightarrow> True | _ \<Rightarrow> False))"

context byte_source
begin

lemma open_l1_spec:
  assumes h: "header_parse hdr_buf = Ok h" and n: "unat (h_l1_size h) \<le> 2 ^ 20" and b: "inv b"
    and fits: "unat (h_l1_table_offset h) + 8 * unat (h_l1_size h) \<le> length (content b)"
  shows "case fst (open_l1 V h b) of Ok r \<Rightarrow> opened_from inv content (content b) h r | _ \<Rightarrow> False"
proof -
  let ?buf = "take (8 * unat (h_l1_size h)) (drop (unat (h_l1_table_offset h)) (content b))"
  from read_exact_at_Ok [OF b fits] obtain b' where
    e: "read_exact_at V (h_l1_table_offset h) (8 * unat (h_l1_size h)) b = (Ok ?buf, b')"
    and b': "inv b'" "content b' = content b"
    by blast
  from e have "open_l1 V h b = (Ok (reader_of h ?buf b'), b')"
    by (simp add: open_l1_def st_bind_def st_map_err_apply)
  with b' reader_of_wf [OF h, of ?buf b'] n fits show ?thesis
    by (simp add: opened_from_def reader_inv_def)
qed

lemma open_l1_truncated:
  assumes b: "inv b" and n: "h_l1_size h \<noteq> 0"
    and out: "length (content b) < unat (h_l1_table_offset h) + 8 * unat (h_l1_size h)"
  shows "\<exists>e. fst (open_l1 V h b) = Err (Io e)"
proof -
  have "0 < 8 * unat (h_l1_size h)" using n by (simp add: unat_eq_0 neq0_conv [symmetric] del: neq0_conv)
  from read_exact_at_Err [OF b out this] obtain e b' where
    "read_exact_at V (h_l1_table_offset h) (8 * unat (h_l1_size h)) b = (Err e, b')"
    by blast
  then show ?thesis by (simp add: open_l1_def st_bind_def st_map_err_apply)
qed

lemma open_l1_empty:
  assumes h: "header_parse hdr_buf = Ok h" and b: "inv b" and n: "h_l1_size h = 0"
  shows "case fst (open_l1 V h b) of
    Ok r \<Rightarrow> opened_from inv content (content b) h r | Err (Io e) \<Rightarrow> True | _ \<Rightarrow> False"
proof (cases "unat (h_l1_table_offset h) < isize_limit")
  case True
  from seek_near [OF b this] obtain b1 where
    s: "dev_seek V (SeekStart (h_l1_table_offset h)) b = (Ok (h_l1_table_offset h), b1)"
      "content b1 = content b"
    by blast
  from op_safeD(2) [OF seek_safe b s(1)] s n reader_of_wf [OF h, of "[]" b1] show ?thesis
    by (simp add: open_l1_def read_exact_at_def st_bind_def st_map_err_def read_exact.simps
        st_ret_apply opened_from_def reader_inv_def)
next
  case False
  then obtain x b1 where s: "dev_seek V (SeekStart (h_l1_table_offset h)) b = (x, b1)"
      "content b1 = content b"
    using seek_far [OF b, of "h_l1_table_offset h"] by auto
  from op_safeD(1,2) [OF seek_safe b s(1)] s n reader_of_wf [OF h, of "[]" b1] show ?thesis
    by (cases x) (simp_all add: open_l1_def read_exact_at_def st_bind_def st_map_err_def
        read_exact.simps st_ret_apply opened_from_def reader_inv_def)
qed

lemma open_reader_spec:
  assumes b: "inv b" and p: "pos b = 0"
  shows "open_result inv content (content b) (open_reader V b)"
proof -
  from read_window_spec [OF b, of 104] p obtain b1 where
    e: "read_window V 104 b = (Ok (take 104 (content b)), b1)"
    and b1: "inv b1" and c1: "content b1 = content b"
    by auto
  show ?thesis
  proof (cases "header_parse (take 104 (content b))")
    case (Ok h)
    have x: "open_reader V b = (if unat (h_l1_size h) \<le> 2 ^ 20 then fst (open_l1 V h b1)
        else Err (L1TableTooLarge (h_l1_size h)))"
      by (simp add: open_reader_def from_backing_eq st_bind_def st_map_err_def e Ok st_simps)
    show ?thesis
    proof (cases "unat (h_l1_size h) \<le> 2 ^ 20")
      case True
      have np: "fst (open_l1 V h b1) \<noteq> Panic"
        using open_l1_safe [OF Ok True b1, of "fst (open_l1 V h b1)" "snd (open_l1 V h b1)"] by simp
      show ?thesis
        using True open_l1_spec [OF Ok True b1] open_l1_truncated [OF b1, of h] np c1
          open_l1_empty [OF Ok b1]
        by (cases "unat (h_l1_table_offset h) + 8 * unat (h_l1_size h) \<le> length (content b)";
            cases "h_l1_size h = 0")
           (auto simp: open_result_def Ok x not_le split: outcome.splits)
    next
      case False
      then show ?thesis by (simp add: open_result_def Ok x not_le)
    qed
  next
    case (Err e')
    with e show ?thesis
      by (simp add: open_result_def open_reader_def from_backing_eq st_bind_def st_map_err_def e
          st_simps)
  qed (use header_parse_no_panic in blast)
qed

lemma open_reader_Ok:
  assumes "inv b" and "pos b = 0" and "open_reader V b = Ok r"
  shows "\<exists>h. header_parse (take 104 (content b)) = Ok h \<and> opened_from inv content (content b) h r"
  using open_reader_spec [OF assms(1,2)] assms(3)
  by (auto simp: open_result_def split: outcome.splits if_splits)

end

section \<open>A reader is a source of its own\<close>

text \<open>
  The guest disk of a reader, and the condition under which all of it can be read: every byte has
  its L2 entry and its data inside the image, and the disk is small enough for the signed
  arithmetic of \<open>seek\<close>.
\<close>

definition guest_disk ::
  "(u8 list \<Rightarrow> u8 list option) \<Rightarrow> nat \<Rightarrow> u64 list \<Rightarrow> u8 list \<Rightarrow> nat \<Rightarrow> u8 list" where
  "guest_disk inflate cb l1 img sz = map (\<lambda>off. the (guest_byte inflate cb l1 img off)) [0..<sz]"

definition guest_complete ::
  "(u8 list \<Rightarrow> u8 list option) \<Rightarrow> nat \<Rightarrow> u64 list \<Rightarrow> u8 list \<Rightarrow> nat \<Rightarrow> bool" where
  "guest_complete inflate cb l1 img sz \<longleftrightarrow>
     sz < isize_limit \<and> (\<forall>off\<in>set [0..<sz]. guest_byte inflate cb l1 img off \<noteq> None)"

definition reader_disk ::
  "(u8 list \<Rightarrow> u8 list option) \<Rightarrow> ('b \<Rightarrow> u8 list) \<Rightarrow> 'b qcow2_reader \<Rightarrow> u8 list" where
  "reader_disk inflate content r = guest_disk inflate (reader_cb r) (l1_table r)
     (content (backing r)) (unat (virtual_disk_size r))"

definition whole_disk ::
  "(u8 list \<Rightarrow> u8 list option) \<Rightarrow> ('b \<Rightarrow> bool) \<Rightarrow> ('b \<Rightarrow> u8 list) \<Rightarrow> 'b qcow2_reader \<Rightarrow> bool" where
  "whole_disk inflate ok content r \<longleftrightarrow> reader_inv ok r \<and>
     guest_complete inflate (reader_cb r) (l1_table r) (content (backing r))
       (unat (virtual_disk_size r))"

lemma length_guest_disk [simp]: "length (guest_disk inflate cb l1 img sz) = sz"
  by (simp add: guest_disk_def)

lemma length_reader_disk [simp]:
  "length (reader_disk inflate content r) = unat (virtual_disk_size r)"
  by (simp add: reader_disk_def)

text \<open>
  The same over the bytes of an image alone: what it takes for all of its disk to be readable, and
  what a reader opened on such bytes has for its disk.
\<close>

definition image_l1 :: "qcow2_header \<Rightarrow> u8 list \<Rightarrow> u64 list" where
  "image_l1 h img = be_u64_table (take (8 * unat (h_l1_size h)) (drop (unat (h_l1_table_offset h)) img))"

definition image_disk :: "(u8 list \<Rightarrow> u8 list option) \<Rightarrow> qcow2_header \<Rightarrow> u8 list \<Rightarrow> u8 list" where
  "image_disk inflate h img =
     guest_disk inflate (unat (h_cluster_bits h)) (image_l1 h img) img (unat (h_disk_size h))"

definition readable_image :: "(u8 list \<Rightarrow> u8 list option) \<Rightarrow> qcow2_header \<Rightarrow> u8 list \<Rightarrow> bool" where
  "readable_image inflate h img \<longleftrightarrow>
     header_parse (take 104 img) = Ok h \<and> unat (h_l1_size h) \<le> 2 ^ 20 \<and>
     unat (h_l1_table_offset h) + 8 * unat (h_l1_size h) \<le> length img \<and>
     guest_complete inflate (unat (h_cluster_bits h)) (image_l1 h img) img (unat (h_disk_size h))"

lemma readable_image_opens:
  assumes "byte_source V ok content pos" and "ok b" and "pos b = 0"
    and "readable_image inflate h (content b)"
  shows "\<exists>r. open_reader V b = Ok r \<and> rpos r = 0 \<and> virtual_disk_size r = h_disk_size h \<and>
    whole_disk inflate ok content r \<and> reader_disk inflate content r = image_disk inflate h (content b)"
proof -
  from byte_source.open_reader_spec [OF assms(1-3)] assms(4) obtain r where
    "open_reader V b = Ok r" "opened_from ok content (content b) h r"
    by (auto simp: open_result_def readable_image_def split: outcome.splits)
  with assms(4) show ?thesis
    by (auto simp: opened_from_def readable_image_def whole_disk_def reader_disk_def image_disk_def image_l1_def)
qed

lemma guest_disk_served:
  assumes "guest_complete inflate cb l1 img sz" and "served (guest_byte inflate cb l1 img) p k x"
    and "p < sz" and "p + k \<le> sz" and "0 < k"
  shows "\<exists>bs. x = Ok bs \<and> 0 < length bs \<and> length bs \<le> k \<and>
    bs = take (length bs) (drop p (guest_disk inflate cb l1 img sz))"
proof -
  have "guest_byte inflate cb l1 img p \<noteq> None"
    using assms(1,3) by (auto simp: guest_complete_def)
  with assms(2) obtain bs where x: "x = Ok bs" and l: "bs \<noteq> []" "length bs \<le> k"
    and b: "\<forall>i<length bs. guest_byte inflate cb l1 img (p + i) = Some (bs ! i)"
    by (cases x) (auto simp: served_def)
  have "bs = take (length bs) (drop p (guest_disk inflate cb l1 img sz))"
    using b l assms(4) by (intro nth_equalityI) (auto simp: guest_disk_def)
  with x l show ?thesis by simp
qed

lemma sint_negative_iff: "sint w < 0 \<longleftrightarrow> isize_limit \<le> unat w" for w :: u64
proof -
  have "sint w < 0 \<longleftrightarrow> bit (unat w) 63" by (simp add: bit_last_iff [symmetric] bit_unsigned_iff)
  also have "\<dots> \<longleftrightarrow> odd (unat w div 2 ^ 63)" by (simp only: bit_iff_odd)
  also have "\<dots> \<longleftrightarrow> 2 ^ 63 \<le> unat w"
  proof -
    have "unat w < 2 * 2 ^ 63" using unsigned_less [of w, where 'a = nat] by simp
    then have "unat w div 2 ^ 63 < 2" by (rule less_mult_imp_div_less)
    then have "unat w div 2 ^ 63 = 0 \<or> unat w div 2 ^ 63 = 1" by linarith
    then show ?thesis by (auto simp: div_eq_0_iff not_le)
  qed
  finally show ?thesis by (simp add: isize_limit_def)
qed

lemma reader_seek_start:
  "reader_seek (SeekStart off) r =
     (if unat off < isize_limit then (Ok off, r\<lparr>rpos := off\<rparr>) else (Err InvalidInput, r))"
  by (simp add: reader_seek_def st_simps sint_negative_iff)

locale reader_over = byte_source V inv content pos
  for V :: "'b read_seek_ops" and inv :: "'b \<Rightarrow> bool" and content :: "'b \<Rightarrow> u8 list"
    and pos :: "'b \<Rightarrow> nat" +
  fixes inflate :: "u8 list \<Rightarrow> u8 list option"
begin

lemma whole_disk_same_image:
  assumes "same_image r t" and "whole_disk inflate inv content r"
  shows "whole_disk inflate inv content t"
    and "reader_disk inflate content t = reader_disk inflate content r"
proof -
  have "t = r\<lparr>backing := backing t, rpos := rpos t\<rparr>" using assms(1) by (simp add: same_image_def)
  then obtain b p where t: "t = r\<lparr>backing := b, rpos := p\<rparr>" by blast
  with assms show "whole_disk inflate inv content t"
    "reader_disk inflate content t = reader_disk inflate content r"
    by (auto simp: whole_disk_def reader_disk_def same_image_def reader_cb_def)
qed

lemma guest_read_piece:
  assumes w: "whole_disk inflate inv content r"
  shows "\<exists>k t. reader_read V inflate n r =
      (Ok (take k (drop (unat (rpos r)) (reader_disk inflate content r))), t)
    \<and> k \<le> n \<and> (0 < n \<longrightarrow> unat (rpos r) < length (reader_disk inflate content r) \<longrightarrow> 0 < k)
    \<and> whole_disk inflate inv content t
    \<and> reader_disk inflate content t = reader_disk inflate content r
    \<and> unat (rpos t) = unat (rpos r)
        + min k (length (reader_disk inflate content r) - unat (rpos r))"
proof (cases "virtual_disk_size r \<le> rpos r \<or> n = 0")
  case True
  with w show ?thesis
    by (intro exI [of _ 0] exI [of _ r]) (auto simp: reader_read_end word_le_nat_alt)
next
  case False
  then have lt: "rpos r < virtual_disk_size r" and n: "0 < n" by auto
  have i: "reader_inv inv r" and g: "guest_complete inflate (reader_cb r) (l1_table r)
      (content (backing r)) (unat (virtual_disk_size r))"
    using w by (auto simp: whole_disk_def)
  note k = piece_len_pos [OF lt n]
  from reader_read_guest [OF i lt n, of inflate] obtain x t where
    e: "reader_read V inflate n r = (x, t)" and t: "same_image r t"
    and p: "unat (rpos t) = unat (rpos r) + (case x of Ok bs \<Rightarrow> length bs | _ \<Rightarrow> 0)"
    and x: "served (byte_of inflate r) (unat (rpos r)) (piece_len r n) x"
    by blast
  have "unat (rpos r) < unat (virtual_disk_size r)"
    and "unat (rpos r) + piece_len r n \<le> unat (virtual_disk_size r)"
    using lt piece_len_bounds(2) [of r n] by (auto simp: word_less_nat_alt)
  from guest_disk_served [OF g x this k] obtain bs where
    bs: "x = Ok bs" "0 < length bs" "length bs \<le> piece_len r n"
      "bs = take (length bs) (drop (unat (rpos r)) (reader_disk inflate content r))"
    by (auto simp: reader_disk_def)
  have "length bs \<le> n" using bs(3) piece_len_bounds(1) [of r n] by simp
  moreover have "length bs \<le> unat (virtual_disk_size r) - unat (rpos r)"
    using bs(3) piece_len_bounds(2) [of r n] by simp
  ultimately show ?thesis
    using e bs p whole_disk_same_image [OF t w]
    by (intro exI [of _ "length bs"] exI [of _ t]) auto
qed

sublocale guest: byte_source "reader_ops V inflate" "whole_disk inflate inv content"
  "reader_disk inflate content" "\<lambda>r. unat (rpos r)"
proof unfold_locales
  fix n
  show "op_safe (whole_disk inflate inv content) (dev_read (reader_ops V inflate) n)
      (\<lambda>bs. length bs \<le> n)"
    using guest_read_piece [where n = n]
    by (fastforce simp: op_safe_def reader_ops_def)
next
  fix off
  show "op_safe (whole_disk inflate inv content) (dev_seek (reader_ops V inflate) (SeekStart off))
      (\<lambda>_. True)"
    by (auto simp: op_safe_def reader_ops_def reader_seek_start whole_disk_def reader_inv_def
        reader_wf_def reader_cb_def)
next
  fix r
  assume "whole_disk inflate inv content r"
  then show "length (reader_disk inflate content r) < isize_limit"
    by (simp add: whole_disk_def guest_complete_def)
next
  fix r n
  assume "whole_disk inflate inv content r"
  from guest_read_piece [OF this, of n]
  show "\<exists>k b'. dev_read (reader_ops V inflate) n r =
      (Ok (take k (drop (unat (rpos r)) (reader_disk inflate content r))), b')
    \<and> k \<le> n \<and> (0 < n \<longrightarrow> unat (rpos r) < length (reader_disk inflate content r) \<longrightarrow> 0 < k)
    \<and> reader_disk inflate content b' = reader_disk inflate content r
    \<and> unat (rpos b') = unat (rpos r)
        + min k (length (reader_disk inflate content r) - unat (rpos r))"
    by (auto simp: reader_ops_def)
next
  fix r off
  assume "whole_disk inflate inv content r" and "unat (off :: u64) < isize_limit"
  then show "\<exists>b'. dev_seek (reader_ops V inflate) (SeekStart off) r = (Ok off, b') \<and>
      reader_disk inflate content b' = reader_disk inflate content r \<and> unat (rpos b') = unat off"
    by (simp add: reader_ops_def reader_seek_start reader_disk_def reader_cb_def)
next
  fix r off
  assume "isize_limit \<le> unat (off :: u64)"
  then show "\<exists>x b'. dev_seek (reader_ops V inflate) (SeekStart off) r = (x, b') \<and>
      reader_disk inflate content b' = reader_disk inflate content r \<and>
      (case x of Ok _ \<Rightarrow> isize_limit \<le> unat (rpos b') | _ \<Rightarrow> True)"
    by (simp add: reader_ops_def reader_seek_start)
qed

lemma guest_source: "byte_source (reader_ops V inflate) (whole_disk inflate inv content)
    (reader_disk inflate content) (\<lambda>r. unat (rpos r))"
  by (rule guest.byte_source_axioms)

end

text \<open>A loop over reads from an offset on, on any image and on a complete one.\<close>

context byte_source
begin

lemma reader_window_at_run:
  assumes "reader_inv inv r" and "fst (read_window_at (reader_ops V inflate) off n r) = Ok bs"
  shows "bs = readable_run (byte_of inflate r) (unat off)
    (min n (unat (virtual_disk_size r) - unat off))"
proof -
  have "unat off < isize_limit"
    using assms(2) by (simp add: read_window_at_def reader_ops_def reader_seek_start st_bind_def split: if_splits)
  moreover have "reader_inv inv (r\<lparr>rpos := off\<rparr>)" "reader_cb (r\<lparr>rpos := off\<rparr>) = reader_cb r"
    using assms(1) by (simp_all add: reader_inv_def reader_wf_def reader_cb_def)
  ultimately show ?thesis
    using reader_window_run [of "r\<lparr>rpos := off\<rparr>" inflate n] assms(2)
    by (auto simp: read_window_at_def reader_ops_def reader_seek_start st_bind_def run_outcome_def)
qed

end

lemma reader_disk_at:
  assumes "byte_source V ok content pos" and "whole_disk inflate ok content r" and "unat off < isize_limit"
  shows "fst (read_window_at (reader_ops V inflate) off n r)
    = Ok (take n (drop (unat off) (reader_disk inflate content r)))"
proof -
  note g = reader_over.guest_source [OF reader_over.intro [OF assms(1)], of inflate]
  from byte_source.seek_near [OF g assms(2,3)] obtain t where
    s: "dev_seek (reader_ops V inflate) (SeekStart off) r = (Ok off, t)"
      "reader_disk inflate content t = reader_disk inflate content r" "unat (rpos t) = unat off"
    by blast
  have "whole_disk inflate ok content t"
    using op_safeD(2) [OF read_seek.seek_safe [OF byte_source.axioms(1) [OF g]] assms(2) s(1)] .
  from byte_source.read_window_spec [OF g this, of n] s show ?thesis
    by (auto simp: read_window_at_def st_bind_def)
qed

text \<open>The readers of the repository: over a file, over a cursor, over a chunking source.\<close>

interpretation file_guest: reader_over file_ops medium_ok med_bytes med_pos inflate for inflate
  by unfold_locales

interpretation cursor_guest: reader_over cursor_ops medium_ok med_bytes med_pos inflate for inflate
  by unfold_locales

interpretation one_byte_guest: reader_over "one_byte_ops cursor_ops" medium_ok med_bytes med_pos inflate
  for inflate
  by unfold_locales

section \<open>The small image, opened\<close>

lemma sample_medium: "medium_ok (medium_of sample_image)"
  by (simp add: medium_ok_def medium_of_def sample_length isize_limit_def)

lemma sample_l1: "be_u64_table (take 8 (drop 72 sample_image)) = [80]"
  by (simp add: be_u64_table.simps sample_defs from_be_def be_nat_def)

lemma sample_disk: "guest_disk no_inflate 9 [80] sample_image 4 = [1, 2, 3, 4]"
  by (simp add: guest_disk_def sample_defs guest_byte_def guest_ref_def guest_l1_def upt_rec
      from_be_def be_nat_def entry_meaning_def cluster_byte_def get_at_def)

lemma sample_complete: "guest_complete no_inflate 9 [80] sample_image 4"
  by (simp add: guest_complete_def isize_limit_def sample_defs guest_byte_def guest_ref_def
      guest_l1_def upt_rec from_be_def be_nat_def entry_meaning_def cluster_byte_def get_at_def)

definition sample_reader :: "medium qcow2_reader" where
  "sample_reader = reader_of sample_fields (take 8 (drop 72 sample_image)) (medium_of sample_image)"

lemma sample_reader_fields:
  "reader_inv medium_ok sample_reader" "reader_cb sample_reader = 9"
  "l1_table sample_reader = [80]" "backing sample_reader = medium_of sample_image"
  "virtual_disk_size sample_reader = 4" "rpos sample_reader = 0"
  using reader_of_wf [OF sample_parse, of "take 8 (drop 72 sample_image)" "medium_of sample_image"]
    sample_medium sample_l1
  by (simp_all add: reader_inv_def sample_reader_def sample_fields_def)

lemma med_bytes_of [simp]: "med_bytes (medium_of bs) = bs" "med_pos (medium_of bs) = 0"
  by (simp_all add: medium_of_def)

lemma sample_whole: "whole_disk no_inflate medium_ok med_bytes sample_reader"
  using sample_reader_fields sample_complete by (simp add: whole_disk_def)

lemma sample_reader_disk: "reader_disk no_inflate med_bytes sample_reader = [1, 2, 3, 4]"
  using sample_reader_fields sample_disk by (simp add: reader_disk_def)

lemma sample_open:
  assumes "byte_source V medium_ok med_bytes med_pos"
  shows "\<exists>r. open_reader V (medium_of sample_image) = Ok r \<and>
    opened_from medium_ok med_bytes sample_image sample_fields r"
  using byte_source.open_reader_spec [OF assms sample_medium] sample_parse
  by (auto simp: open_result_def sample_fields_def sample_length split: outcome.splits)

lemma sample_readable: "readable_image no_inflate sample_fields sample_image"
  "image_disk no_inflate sample_fields sample_image = [1, 2, 3, 4]"
  using sample_parse sample_complete sample_disk sample_l1
  by (simp_all add: readable_image_def image_l1_def image_disk_def sample_fields_def sample_length)

section \<open>Properties\<close>

text \<open>
  C1. Reading refines the guest disk. Over any source that serves fixed bytes in pieces of any size,
  a read inside the disk returns a piece of the guest bytes at the position (guest_byte: L1
  index, L2 entry, cluster kind, offset or inflated data, in plain arithmetic), at least one
  byte where there is one; it fails only where the guest disk has no byte; the image and the
  geometry stay, and the position moves by exactly what was returned.
\<close>

theorem read_serves_guest:
  assumes "byte_source V ok content pos" and "reader_inv ok r"
    and "rpos r < virtual_disk_size r" and "0 < n"
  shows "\<exists>x t. reader_read V inflate n r = (x, t) \<and> reader_inv ok t \<and>
    content (backing t) = content (backing r) \<and>
    unat (rpos t) = unat (rpos r) + (case x of Ok bs \<Rightarrow> length bs | _ \<Rightarrow> 0) \<and>
    served (guest_byte inflate (reader_cb r) (l1_table r) (content (backing r)))
      (unat (rpos r)) (piece_len r n) x"
  using byte_source.reader_read_guest [OF assms, of inflate]
  by (auto simp: byte_source.same_image_def [OF assms(1)])

theorem read_serves_guest_witness:
  "\<exists>x t. reader_read (one_byte_ops cursor_ops) no_inflate 10 sample_reader = (x, t) \<and>
    served (guest_byte no_inflate 9 [80] sample_image) 0 (piece_len sample_reader 10) x"
  using read_serves_guest [OF one_byte_source.byte_source_axioms sample_reader_fields(1), of 10 no_inflate]
    sample_reader_fields
  by auto

text \<open>
  C2. A reader on a complete image is a byte source of its own: a loop over its short,
  cluster-bounded reads collects exactly the next n bytes of the guest disk, cut at the end of
  the disk, and leaves the disk unchanged.
\<close>

theorem disk_read_back:
  assumes "byte_source V ok content pos" and "whole_disk inflate ok content r"
  shows "\<exists>t. read_window (reader_ops V inflate) n r =
      (Ok (take n (drop (unat (rpos r)) (reader_disk inflate content r))), t) \<and>
    whole_disk inflate ok content t \<and>
    reader_disk inflate content t = reader_disk inflate content r"
  using byte_source.read_window_spec [OF reader_over.guest_source [OF reader_over.intro [OF assms(1)]]
      assms(2), of n]
  by blast

theorem disk_read_back_witness:
  "\<exists>t. read_window (reader_ops (one_byte_ops cursor_ops) no_inflate) 100 sample_reader
    = (Ok [1, 2, 3, 4], t)"
  using disk_read_back [OF one_byte_source.byte_source_axioms sample_whole, of 100]
  by (simp add: sample_reader_disk sample_reader_fields) blast

text \<open>
  C4. What opening an image gives is determined by its bytes: the error of the strict header parser
  on the first 104 bytes, the refusal of an L1 table above 2^20 entries, the reader with the
  geometry of the header and the L1 table of the image, positioned at 0, or an I/O error when
  the image ends inside the table.
\<close>

theorem open_from_bytes:
  assumes "byte_source V ok content pos" and "ok b" and "pos b = 0"
  shows "open_result ok content (content b) (open_reader V b)"
  using assms by (rule byte_source.open_reader_spec)

theorem open_from_bytes_witness:
  "\<exists>r. open_reader (one_byte_ops cursor_ops) (medium_of sample_image) = Ok r \<and>
    opened_from medium_ok med_bytes sample_image sample_fields r"
  using open_from_bytes [OF one_byte_source.byte_source_axioms sample_medium] sample_parse
  by (auto simp: open_result_def sample_fields_def sample_length split: outcome.splits)

text \<open>
  C5. The backing does not matter. Of two sources with the same bytes, one of which may hand out one
  byte per call, on any image: whenever both open and a seek and a loop of reads succeeds on
  both, the bytes are the same. On an image all of whose disk can be read (accepted header, L1
  table in the file, every guest byte present, a disk below 2^63) both open and both give, from
  every offset below 2^63, exactly the slice of its guest disk.
\<close>

theorem backing_independent:
  assumes "byte_source V1 ok1 content1 pos1" and "byte_source V2 ok2 content2 pos2"
    and "ok1 b1" and "pos1 b1 = 0" and "ok2 b2" and "pos2 b2 = 0" and "content1 b1 = content2 b2"
  shows "(\<forall>r1 r2 off n bs1 bs2. open_reader V1 b1 = Ok r1 \<longrightarrow> open_reader V2 b2 = Ok r2 \<longrightarrow>
      fst (read_window_at (reader_ops V1 inflate) off n r1) = Ok bs1 \<longrightarrow>
      fst (read_window_at (reader_ops V2 inflate) off n r2) = Ok bs2 \<longrightarrow> bs1 = bs2) \<and>
    (readable_image inflate h (content1 b1) \<longrightarrow>
      (\<exists>r1 r2. open_reader V1 b1 = Ok r1 \<and> open_reader V2 b2 = Ok r2 \<and>
        (\<forall>off n. unat off < isize_limit \<longrightarrow>
          fst (read_window_at (reader_ops V1 inflate) off n r1) =
            Ok (take n (drop (unat off) (image_disk inflate h (content1 b1)))) \<and>
          fst (read_window_at (reader_ops V2 inflate) off n r2) =
            Ok (take n (drop (unat off) (image_disk inflate h (content1 b1)))))))"
proof (intro conjI allI impI)
  fix r1 r2 off n bs1 bs2
  assume r: "open_reader V1 b1 = Ok r1" "open_reader V2 b2 = Ok r2"
    and e: "fst (read_window_at (reader_ops V1 inflate) off n r1) = Ok bs1"
      "fst (read_window_at (reader_ops V2 inflate) off n r2) = Ok bs2"
  from byte_source.open_reader_Ok [OF assms(1,3,4) r(1)] obtain h1 where
    h1: "header_parse (take 104 (content1 b1)) = Ok h1" "opened_from ok1 content1 (content1 b1) h1 r1"
    by blast
  from byte_source.open_reader_Ok [OF assms(2,5,6) r(2)] h1(1) assms(7) have
    h2: "opened_from ok2 content2 (content1 b1) h1 r2"
    by auto
  show "bs1 = bs2"
    using byte_source.reader_window_at_run [OF assms(1) _ e(1)]
      byte_source.reader_window_at_run [OF assms(2) _ e(2)] h1(2) h2
    by (simp add: opened_from_def)
next
  assume h: "readable_image inflate h (content1 b1)"
  from readable_image_opens [OF assms(1,3,4) h] obtain r1 where
    r1: "open_reader V1 b1 = Ok r1" "whole_disk inflate ok1 content1 r1"
      "reader_disk inflate content1 r1 = image_disk inflate h (content1 b1)" by blast
  from readable_image_opens [OF assms(2,5,6)] h assms(7) obtain r2 where
    r2: "open_reader V2 b2 = Ok r2" "whole_disk inflate ok2 content2 r2"
      "reader_disk inflate content2 r2 = image_disk inflate h (content1 b1)" by auto
  show "\<exists>r1 r2. open_reader V1 b1 = Ok r1 \<and> open_reader V2 b2 = Ok r2 \<and>
      (\<forall>off n. unat off < isize_limit \<longrightarrow>
        fst (read_window_at (reader_ops V1 inflate) off n r1) =
          Ok (take n (drop (unat off) (image_disk inflate h (content1 b1)))) \<and>
        fst (read_window_at (reader_ops V2 inflate) off n r2) =
          Ok (take n (drop (unat off) (image_disk inflate h (content1 b1)))))"
    using r1 r2 reader_disk_at [OF assms(1) r1(2)] reader_disk_at [OF assms(2) r2(2)]
    by (intro exI [of _ r1] exI [of _ r2]) simp
qed

theorem backing_independent_witness:
  "\<exists>r1 r2. open_reader cursor_ops (medium_of sample_image) = Ok r1 \<and>
    open_reader (one_byte_ops cursor_ops) (medium_of sample_image) = Ok r2 \<and>
    fst (read_window_at (reader_ops cursor_ops no_inflate) 1 2 r1) = Ok [2, 3] \<and>
    fst (read_window_at (reader_ops (one_byte_ops cursor_ops) no_inflate) 1 2 r2) = Ok [2, 3]"
proof -
  note b = backing_independent [OF cursor_source.byte_source_axioms one_byte_source.byte_source_axioms
      sample_medium _ sample_medium, of no_inflate sample_fields, THEN conjunct2]
  have "\<exists>r1 r2. open_reader cursor_ops (medium_of sample_image) = Ok r1 \<and>
      open_reader (one_byte_ops cursor_ops) (medium_of sample_image) = Ok r2 \<and>
      (\<forall>off n. unat off < isize_limit \<longrightarrow>
        fst (read_window_at (reader_ops cursor_ops no_inflate) off n r1) = Ok (take n (drop (unat off) [1, 2, 3, 4])) \<and>
        fst (read_window_at (reader_ops (one_byte_ops cursor_ops) no_inflate) off n r2)
          = Ok (take n (drop (unat off) [1, 2, 3, 4])))"
    using b sample_readable by (simp only: med_bytes_of simp_thms)
  then obtain r1 r2 where
    "open_reader cursor_ops (medium_of sample_image) = Ok r1"
    "open_reader (one_byte_ops cursor_ops) (medium_of sample_image) = Ok r2"
    and "\<And>off n. unat off < isize_limit \<Longrightarrow>
      fst (read_window_at (reader_ops cursor_ops no_inflate) off n r1) = Ok (take n (drop (unat off) [1, 2, 3, 4])) \<and>
      fst (read_window_at (reader_ops (one_byte_ops cursor_ops) no_inflate) off n r2)
        = Ok (take n (drop (unat off) [1, 2, 3, 4]))"
    by blast
  from this(1,2) this(3) [of 1 2] show ?thesis by (simp add: isize_limit_def)
qed

text \<open>
  C7. Opening never panics, on any bytes and any I/O behaviour, and a reader it returns satisfies
  the invariant of the geometry (cluster size a power of two between 2^9 and 2^20, derived
  fields in agreement) and stands at 0.
\<close>

theorem open_never_panics:
  assumes "read_seek V ok" and "ok b"
  shows "open_reader V b \<noteq> Panic \<and>
    (\<forall>r. open_reader V b = Ok r \<longrightarrow> reader_inv ok r \<and> rpos r = 0)"
  using read_seek.from_backing_safe [OF assms, of "open_reader V b" "snd (from_backing V b)"]
  by (simp add: open_reader_def)

theorem open_never_panics_witness:
  "open_reader file_ops (medium_of [0x51, 0x46]) \<noteq> Panic"
  using open_never_panics [OF file_bytes.read_seek_axioms, of "medium_of [0x51, 0x46]"]
  by (simp add: medium_ok_def isize_limit_def)

text \<open>
  C6. A reader opened on any backing that keeps to the contract of Read and Seek, whatever bytes and
  errors it returns, and driven through any sequence of reads and seeks, never panics in a read
  (no overflow, no slice out of range) and never returns more bytes than the buffer holds.
\<close>

theorem read_never_panics:
  assumes "read_seek V ok" and "ok b" and "reader_reach V inflate b r"
  shows "fst (reader_read V inflate n r) \<noteq> Panic \<and>
    (\<forall>bs. fst (reader_read V inflate n r) = Ok bs \<longrightarrow> length bs \<le> n)"
proof -
  have "reader_inv ok r" using read_seek.reader_reach_inv [OF assms(1,3,2)] .
  from op_safeD [OF read_seek.reader_read_safe [OF assms(1)] this, of inflate n] show ?thesis
    by (metis prod.collapse)
qed

theorem read_never_panics_witness:
  "\<exists>r t. open_reader file_ops (medium_of sample_image) = Ok r \<and>
    reader_seek (SeekStart 2) r = (Ok 2, t) \<and> fst (reader_read file_ops no_inflate 10 t) \<noteq> Panic"
proof -
  from sample_open [OF file_bytes.byte_source_axioms] obtain r where
    r: "open_reader file_ops (medium_of sample_image) = Ok r" by blast
  let ?t = "r\<lparr>rpos := 2\<rparr>"
  have s: "reader_seek (SeekStart 2) r = (Ok 2, ?t)"
    by (simp add: reader_seek_start isize_limit_def)
  have "reader_reach file_ops no_inflate (medium_of sample_image) ?t"
    by (rule after_seek [OF opened [OF r] s]) simp
  from read_never_panics [OF file_bytes.read_seek_axioms sample_medium this] r s show ?thesis
    by blast
qed

text \<open>
  C11. For every accepted cluster size the classification of an L2 entry does not overflow and is the
  arithmetic meaning of its bit fields; a standard offset is below 2^62, a compressed offset
  below 2^(63 - cluster_bits), and the compressed length is between 1 and 2^(cluster_bits + 8).
\<close>

theorem l2_entry_decoded:
  assumes "9 \<le> cb" and "cb \<le> 20"
  shows "classify_l2_entry (of_nat cb) e = Ok (entry_meaning cb e) \<and>
    (case entry_meaning cb e of
       Normal off \<Rightarrow> unat off < 2 ^ 62
     | Compressed off len \<Rightarrow> unat off < 2 ^ (63 - cb) \<and> 0 < len \<and> len \<le> 2 ^ (cb + 8)
     | _ \<Rightarrow> True)"
  using classify_l2_entry_eq [OF assms] entry_meaning_bounds [OF assms] by blast

theorem l2_entry_decoded_witness:
  "classify_l2_entry 16 0x4000000000050000 = Ok (Compressed 0x50000 512)"
  using l2_entry_decoded [of 16 "0x4000000000050000"] by (simp add: entry_meaning_def)

text \<open>
  C30. A read past the end of the L1 table returns zeros for the whole piece and advances, without
  touching the backing, even a failing one.
\<close>

theorem sparse_read_is_zero:
  assumes "reader_wf r" and "rpos r < virtual_disk_size r" and "0 < n"
    and "length (l1_table r) \<le> unat (rpos r) div 2 ^ (2 * reader_cb r - 3)"
  shows "reader_read V inflate n r =
    (Ok (replicate (piece_len r n) 0), r\<lparr>rpos := rpos r + of_nat (piece_len r n)\<rparr>)"
proof -
  have "guest_l1 (reader_cb r) (l1_table r) (unat (rpos r)) = 0"
    using assms(4) by (simp add: guest_l1_def Let_def)
  then have "l1_slot r (rpos r) = 0" using l1_slot_0_guest [OF assms(1)] by blast
  then have c: "cluster_ref_for V (rpos r) r = (Ok Unallocated, r)"
    by (simp add: cluster_ref_for_eq [OF assms(1)])
  have "unat (rpos r) + piece_len r n < 2 ^ 64"
    using piece_len_bounds(2) [of r n] assms(2) unsigned_less [of "virtual_disk_size r", where 'a = nat]
    by (simp add: word_less_nat_alt)
  from advance_Ok(1) [OF this] c show ?thesis
    by (simp add: reader_read_eq [OF assms(1-3)] st_bind_def read_cluster_def st_ret_apply)
qed

definition sparse_reader :: "medium qcow2_reader" where
  "sparse_reader = sample_reader\<lparr>l1_table := []\<rparr>"

theorem sparse_read_is_zero_witness:
  "fst (reader_read cursor_ops no_inflate 3 sparse_reader) = Ok [0, 0, 0]"
proof -
  have wf: "reader_wf sparse_reader" and f: "rpos sparse_reader = 0" "virtual_disk_size sparse_reader = 4"
    "l1_table sparse_reader = []" "reader_cb sparse_reader = 9"
    using sample_reader_fields
    by (simp_all add: sparse_reader_def reader_inv_def reader_wf_def reader_cb_def)
  have "piece_len sparse_reader 3 = 3" by (simp add: piece_len_def f)
  with sparse_read_is_zero [OF wf, of 3 cursor_ops no_inflate] f show ?thesis
    by (simp add: numeral_3_eq_3)
qed

text \<open>The signed target of a seek.\<close>

definition seek_target :: "seek_from \<Rightarrow> 'b qcow2_reader \<Rightarrow> int" where
  "seek_target target r =
     (case target of
        SeekStart n \<Rightarrow> sint n
      | SeekCurrent n \<Rightarrow> sint (rpos r) + sint n
      | SeekEnd n \<Rightarrow> sint (virtual_disk_size r) + sint n)"

lemma sint_of_int: "- (2 ^ 63) \<le> k \<Longrightarrow> k < 2 ^ 63 \<Longrightarrow> sint (word_of_int k :: u64) = k"
  by (simp add: sint_sbintrunc' signed_take_bit_int_eq_self)

text \<open>
  C29. What a seek does, on every branch: with the signed 64-bit target, a panic when the sum
  overflows, an InvalidInput error and no change when it is negative, and otherwise the new
  position.
\<close>

theorem seek_exact:
  "reader_seek target r =
    (let t = seek_target target r in
     if t < - (2 ^ 63) \<or> 2 ^ 63 \<le> t then (Panic, r)
     else if t < 0 then (Err InvalidInput, r)
     else (Ok (word_of_int t), r\<lparr>rpos := word_of_int t\<rparr>))"
proof -
  define t where "t = seek_target target r"
  have i: "- (2 ^ 63) \<le> sint w" "sint w < 2 ^ 63" for w :: i64
    using sint_greater_eq [of w] sint_less [of w] by simp_all
  have target: "reader_seek_target target r =
      (if t < - (2 ^ 63) \<or> 2 ^ 63 \<le> t then Panic else Ok (word_of_int t))"
    using i by (cases target) (auto simp: t_def seek_target_def sadd_chk_def not_le not_less)
  show ?thesis
    unfolding reader_seek_def st_with_apply target t_def [symmetric] Let_def
    by (simp add: st_bind_def st_simps sint_of_int)
qed

text \<open>
  From any positive position a relative seek by i64::MAX overflows: with overflow checks the
  call panics.
\<close>

theorem seek_overflow_panics:
  assumes "0 < unat (rpos r)" and "unat (rpos r) < 2 ^ 63"
  shows "fst (reader_seek (SeekCurrent 0x7FFFFFFFFFFFFFFF) r) = Panic"
proof -
  have u: "uint (rpos r) = int (unat (rpos r))" by (rule uint_nat)
  have "int (unat (rpos r)) < int (2 ^ 63)" using assms(2) by (simp only: of_nat_less_iff)
  then have "uint (rpos r) < 2 ^ 63" unfolding u [symmetric] by simp
  then have "sint (rpos r) = int (unat (rpos r))"
    unfolding sint_uint u [symmetric] 
    by (intro signed_take_bit_int_eq_self order_trans [OF _ uint_ge_0]) simp_all
  moreover have "sint (0x7FFFFFFFFFFFFFFF :: i64) = 2 ^ 63 - 1" by simp
  ultimately have "\<not> sint (rpos r) + sint (0x7FFFFFFFFFFFFFFF :: i64) < 2 ^ 63"
    using assms(1) by linarith
  then show ?thesis
    by (simp only: reader_seek_def st_with_apply reader_seek_target.simps sadd_chk_def simp_thms
        if_False st_bind_lift_Panic fst_conv)
qed

text \<open>
  C35. A compressed cluster that inflates to less than a cluster is not an error: the rest of it
  reads as zeros.
\<close>

theorem short_deflate_is_padded:
  assumes "byte_source V ok content pos" and "reader_inv ok r" and "unat off < 2 ^ 63"
    and "inflate (take len (drop (unat off) (content (backing r)))) = Some out"
    and "length out < 2 ^ reader_cb r"
  shows "fst (decompress_cluster V inflate off len r) =
    Ok (out @ replicate (2 ^ reader_cb r - length out) 0)"
proof -
  have wf: "reader_wf r" and i: "ok (backing r)" using assms(2) by (auto simp: reader_inv_def)
  from byte_source.decompress_cluster_guest [OF assms(1) _ assms(3) wf, of r inflate len] assms(4) i
  show ?thesis by (auto simp: same_reader_refl)
qed

text \<open>
  C36. A standard cluster that lies past the end of the file ends the read like the end of the disk:
  the read succeeds with no byte, over any source in working order, and the position, which is
  before the end of the disk, and the image stay as they are.
\<close>

theorem truncated_cluster_ends_read:
  assumes "byte_source V ok content pos" and "reader_inv ok r"
    and "rpos r < virtual_disk_size r" and "0 < n"
    and "guest_ref (reader_cb r) (l1_table r) (content (backing r)) (unat (rpos r)) = Some (Normal off)"
    and "length (content (backing r)) \<le> unat off + unat (rpos r) mod 2 ^ reader_cb r"
  shows "\<exists>t. reader_read V inflate n r = (Ok [], t) \<and> rpos t = rpos r \<and> reader_inv ok t \<and>
    content (backing t) = content (backing r)"
proof -
  have none: "guest_byte inflate (reader_cb r) (l1_table r) (content (backing r)) (unat (rpos r)) = None"
    using assms(5,6) by (simp add: guest_byte_def cluster_byte_def get_at_def)
  from byte_source.reader_read_normal [OF assms(1-5), of inflate] obtain bs t where
    e: "reader_read V inflate n r = (Ok bs, t)" by blast
  with byte_source.reader_read_guest [OF assms(1-4), of inflate] have
    "served (guest_byte inflate (reader_cb r) (l1_table r) (content (backing r)))
       (unat (rpos r)) (piece_len r n) (Ok bs :: (io_error, u8 list) outcome)"
    "unat (rpos t) = unat (rpos r) + length bs" "byte_source.same_image ok content r t"
    by simp_all
  moreover from this(1) none have "bs = []"
    by (cases bs) (auto simp: served_def)
  ultimately show ?thesis
    using e by (simp add: byte_source.same_image_def [OF assms(1)] word_unat_eq_iff)
qed

theorem seek_overflow_panics_witness:
  "fst (reader_seek (SeekCurrent 0x7FFFFFFFFFFFFFFF) (sample_reader\<lparr>rpos := 1\<rparr>)) = Panic"
  using seek_overflow_panics [of "sample_reader\<lparr>rpos := 1\<rparr>"] by simp

theorem short_deflate_is_padded_witness:
  "fst (decompress_cluster cursor_ops (\<lambda>_. Some [7]) 0 512 sample_reader) =
    Ok ([7] @ replicate 511 0)"
  using short_deflate_is_padded [OF cursor_source.byte_source_axioms sample_reader_fields(1),
      of 0 "\<lambda>_. Some [7]" 512 "[7]"] sample_reader_fields
  by simp

definition truncated_reader :: "medium qcow2_reader" where
  "truncated_reader = sample_reader\<lparr>backing := medium_of (take 88 sample_image)\<rparr>"

theorem truncated_cluster_ends_read_witness:
  "rpos truncated_reader < virtual_disk_size truncated_reader \<and>
    fst (reader_read cursor_ops no_inflate 4 truncated_reader) = Ok []"
proof -
  have f: "rpos truncated_reader = 0" "virtual_disk_size truncated_reader = 4"
    "l1_table truncated_reader = [80]" "reader_cb truncated_reader = 9"
    "backing truncated_reader = medium_of (take 88 sample_image)"
    using sample_reader_fields by (simp_all add: truncated_reader_def reader_cb_def)
  have i: "reader_inv medium_ok truncated_reader"
    using sample_reader_fields(1) sample_length
    by (simp add: truncated_reader_def reader_inv_def reader_wf_def reader_cb_def medium_ok_def
        isize_limit_def)
  have "guest_ref 9 [80] (take 88 sample_image) 0 = Some (Normal 88)"
    by (simp add: guest_ref_def guest_l1_def sample_defs from_be_def be_nat_def entry_meaning_def)
  with truncated_cluster_ends_read [OF cursor_source.byte_source_axioms i, of 4 88 no_inflate] f
    sample_length
  show ?thesis by auto
qed

end
