(* ===== verification/Vfs.thy ===== *)
theory Vfs
  imports Guest
begin

text \<open>
  core/src/vfs.rs: a reader presented as an \<open>ImageSource\<close> of the forensic-vfs crate.  The
  \<open>VfsError::Io\<close> constructor of that crate is the parameter \<open>vfs_io\<close>.  The mutex makes every
  \<open>read_at\<close> one step on the reader, and a poisoned lock is recovered, so a panic inside one call
  leaves the source usable: \<open>source_reach\<close> has the states in between.
\<close>

section \<open>The source\<close>

record 'b qcow2_source =
  src_inner :: "'b qcow2_reader"
  src_len :: u64

definition source_new :: "'b qcow2_reader \<Rightarrow> 'b qcow2_source" where
  "source_new reader = \<lparr>src_inner = reader, src_len = virtual_disk_size reader\<rparr>"

definition source_len :: "'b qcow2_source \<Rightarrow> u64" where
  "source_len s = src_len s"

text \<open>
  The loop of \<open>read_at\<close>: fill the buffer until it is full or the reader is at its end.  A count
  past the end of the buffer just ends the loop.
\<close>

function fill_loop :: "'b read_seek_ops \<Rightarrow> nat \<Rightarrow> ('b, io_error, u8 list) op" where
  "fill_loop V n =
     (if n = 0 then st_ret []
      else st_bind (dev_read V n) (\<lambda>bs.
        if bs = [] then st_ret []
        else if n < length bs then st_ret bs
        else st_bind (fill_loop V (n - length bs)) (\<lambda>cs. st_ret (bs @ cs))))"
  by pat_completeness auto
termination
  by (relation "measure (\<lambda>(V, n). n)") auto

declare fill_loop.simps [simp del]

text \<open>The lock: an operation on the reader inside the source.\<close>

definition locked :: "('b qcow2_reader, 'v, 'a) op \<Rightarrow> ('b qcow2_source, 'v, 'a) op" where
  "locked m = (\<lambda>s. (fst (m (src_inner s)), s\<lparr>src_inner := snd (m (src_inner s))\<rparr>))"

definition read_at ::
  "'b read_seek_ops \<Rightarrow> (u8 list \<Rightarrow> u8 list option) \<Rightarrow> (rstring \<Rightarrow> io_error \<Rightarrow> 'v)
     \<Rightarrow> u64 \<Rightarrow> nat \<Rightarrow> ('b qcow2_source, 'v, u8 list) op" where
  "read_at V inflate vfs_io offset n = st_with (\<lambda>s.
    let avail = (if offset \<le> src_len s then src_len s - offset else 0) in
    if avail = 0 then st_ret [] else
    let want = min n (unat avail) in
    locked
      (st_bind (st_map_err (vfs_io (str ''qcow2::seek'')) (reader_seek (SeekStart offset))) (\<lambda>_.
       st_map_err (vfs_io (str ''qcow2::read'')) (fill_loop (reader_ops V inflate) want))))"

section \<open>The states of a shared source\<close>

text \<open>
  Any number of callers share the source; the lock serialises their calls.  Whatever a call
  returns, a panic included, the next one finds the reader as that call left it.
\<close>

inductive source_reach ::
  "'b read_seek_ops \<Rightarrow> (u8 list \<Rightarrow> u8 list option) \<Rightarrow> (rstring \<Rightarrow> io_error \<Rightarrow> 'v)
     \<Rightarrow> 'b qcow2_reader \<Rightarrow> 'b qcow2_source \<Rightarrow> bool"
  for V inflate vfs_io r where
  source_created: "source_reach V inflate vfs_io r (source_new r)"
| source_served: "source_reach V inflate vfs_io r s \<Longrightarrow> read_at V inflate vfs_io offset n s = (x, t)
    \<Longrightarrow> source_reach V inflate vfs_io r t"

inductive_cases source_reachE: "source_reach V inflate vfs_io r s"

section \<open>Panic-freedom\<close>

context read_seek
begin

text \<open>On a source that keeps to its contract the loop is that of \<open>read_window\<close>.\<close>

lemma fill_loop_read_window: "inv s \<Longrightarrow> fill_loop V n s = read_window V n s"
proof (induction n arbitrary: s rule: less_induct)
  case (less n)
  show ?case
    unfolding fill_loop.simps [of V n] read_window.simps [of V n]
  proof (cases "n = 0")
    case False
    have "st_bind (dev_read V n) (\<lambda>bs. if bs = [] then st_ret []
          else if n < length bs then st_ret bs
          else st_bind (fill_loop V (n - length bs)) (\<lambda>cs. st_ret (bs @ cs))) s
      = st_bind (dev_read V n) (\<lambda>bs. if bs = [] then st_ret []
          else if n < length bs then st_panic
          else st_bind (read_window V (n - length bs)) (\<lambda>cs. st_ret (bs @ cs))) s"
    proof (rule st_bind_cong)
      fix bs s'
      assume "dev_read V n s = (Ok bs, s')"
      note d = op_safeD [OF read_safe less.prems this]
      have "fill_loop V (n - length bs) s' = read_window V (n - length bs) s'" if "bs \<noteq> []"
        using less.IH d(2) that False by (simp add: diff_less)
      with d(3) show "(if bs = [] then st_ret [] else if n < length bs then st_ret bs
            else st_bind (fill_loop V (n - length bs)) (\<lambda>cs. st_ret (bs @ cs))) s' =
          (if bs = [] then st_ret [] else if n < length bs then st_panic
            else st_bind (read_window V (n - length bs)) (\<lambda>cs. st_ret (bs @ cs))) s'"
        by (auto simp: st_bind_def)
    qed
    with False show "(if n = 0 then st_ret [] else st_bind (dev_read V n) (\<lambda>bs. if bs = [] then st_ret []
          else if n < length bs then st_ret bs
          else st_bind (fill_loop V (n - length bs)) (\<lambda>cs. st_ret (bs @ cs)))) s
      = (if n = 0 then st_ret [] else st_bind (dev_read V n) (\<lambda>bs. if bs = [] then st_ret []
          else if n < length bs then st_panic
          else st_bind (read_window V (n - length bs)) (\<lambda>cs. st_ret (bs @ cs)))) s"
      by simp
  qed simp
qed

lemma fill_loop_safe: "op_safe inv (fill_loop V n) (\<lambda>bs. length bs \<le> n)"
  using read_window_safe [of n] by (simp add: op_safe_def fill_loop_read_window)

end

definition source_inv :: "('b \<Rightarrow> bool) \<Rightarrow> 'b qcow2_source \<Rightarrow> bool" where
  "source_inv ok s \<longleftrightarrow> reader_inv ok (src_inner s)"

lemma locked_safe:
  assumes "op_safe P m Q"
  shows "op_safe (\<lambda>s. P (src_inner s)) (locked m) Q"
  using assms by (simp add: op_safe_def locked_def)

context any_reader
begin

lemma read_at_safe:
  "op_safe (source_inv inv) (read_at V inflate vfs_io off n) (\<lambda>bs. length bs \<le> n)"
proof -
  have io: "op_safe (reader_inv inv)
      (st_bind (st_map_err (vfs_io (str ''qcow2::seek'')) (reader_seek (SeekStart off))) (\<lambda>_.
       st_map_err (vfs_io (str ''qcow2::read'')) (fill_loop (reader_ops V inflate) want)))
      (\<lambda>bs. length bs \<le> n)" if "want \<le> n" for want
    using that
    by (intro op_safe_bind [OF op_safe_map_err [OF reader_seek_start_safe]]
        op_safe_map_err [OF op_safe_weaken [OF reader.fill_loop_safe]]) (rule le_trans)
  have eq: "source_inv inv = (\<lambda>s. reader_inv inv (src_inner s))" by (simp add: fun_eq_iff source_inv_def)
  show ?thesis
    unfolding read_at_def Let_def eq
    by (intro op_safe_with op_safe_if op_safe_ret locked_safe [OF io]) simp_all
qed

lemma source_reach_inv:
  "source_reach V inflate vfs_io r s \<Longrightarrow> reader_inv inv r \<Longrightarrow> source_inv inv s"
proof (induction rule: source_reach.induct)
  case source_created
  then show ?case by (simp add: source_inv_def source_new_def)
next
  case (source_served s off n x t)
  then show ?case using op_safeD(2) [OF read_at_safe] by blast
qed

end

section \<open>Positioned reads\<close>

context any_reader
begin

lemma reader_contract: "read_seek (reader_ops V inflate) (reader_inv inv)"
  by (rule reader.read_seek_axioms)

end

text \<open>What no call changes: the image and its geometry, and the length recorded at the start.\<close>

context reader_over
begin

definition shared :: "'b qcow2_reader \<Rightarrow> 'b qcow2_source \<Rightarrow> bool" where
  "shared r s \<longleftrightarrow> same_image r (src_inner s) \<and> src_len s = virtual_disk_size r"

text \<open>One call, on any image: the readable run, or an error that says there is a byte missing.\<close>

lemma read_at_run:
  assumes s: "shared r s"
  shows "\<exists>x t. read_at V inflate vfs_io off n s = (x, t) \<and> shared r t \<and>
    (if virtual_disk_size r \<le> off then x = Ok []
     else if unat off < isize_limit then run_outcome (byte_of inflate r) (unat off)
       (min n (unat (virtual_disk_size r) - unat off)) x
     else x = Err (vfs_io (str ''qcow2::seek'') InvalidInput))"
proof (cases "virtual_disk_size r \<le> off")
  case True
  then have "\<not> off \<le> virtual_disk_size r \<or> virtual_disk_size r - off = 0"
    by (auto simp: word_le_nat_alt word_unat_eq_iff unat_sub_if' )
  with s True show ?thesis
    by (intro exI [of _ "Ok []"] exI [of _ s]) (auto simp: read_at_def shared_def st_simps Let_def)
next
  case False
  let ?want = "min n (unat (virtual_disk_size r) - unat off)"
  have off: "off \<le> virtual_disk_size r" and nz: "virtual_disk_size r \<noteq> off"
    and u: "unat (virtual_disk_size r - off) = unat (virtual_disk_size r) - unat off"
    using False by (auto simp: word_le_nat_alt unat_sub)
  have l: "src_len s = virtual_disk_size r" and i: "same_image r (src_inner s)"
    using s by (auto simp: shared_def)
  note e = read_at_def st_with_apply l Let_def locked_def st_bind_def st_map_err_def u off nz reader_seek_start
  show ?thesis
  proof (cases "unat off < isize_limit")
    case True
    define q where "q = (src_inner s)\<lparr>rpos := off\<rparr>"
    have q: "same_image r q" "unat (rpos q) = unat off"
      using i by (cases r; cases "src_inner s"; auto simp: same_image_def q_def reader_inv_def reader_wf_def reader_cb_def)+
    note f = same_image_fields [OF q(1)]
    from reader_window_run [OF f(1), of inflate ?want] obtain x t where
      x: "read_window (reader_ops V inflate) ?want q = (x, t)" and t: "same_image q t"
      and run: "run_outcome (byte_of inflate r) (unat off) ?want x"
      by (auto simp: f q(2) min.absorb1)
    have w: "fill_loop (reader_ops V inflate) ?want q = (x, t)"
      using read_seek.fill_loop_read_window [OF any_reader.reader_contract [OF any_reader.intro [OF read_seek_axioms]] f(1)] x by simp
    let ?y = "case x of Ok bs \<Rightarrow> Ok bs | Err err \<Rightarrow> Err (vfs_io (str ''qcow2::read'') err) | Panic \<Rightarrow> Panic"
    have "read_at V inflate vfs_io off n s = (?y, s\<lparr>src_inner := t\<rparr>)"
      using True w by (simp add: e q_def split: outcome.split)
    moreover have "run_outcome (byte_of inflate r) (unat off) ?want ?y"
      using run by (simp add: run_outcome_def split: outcome.splits)
    moreover have "shared r (s\<lparr>src_inner := t\<rparr>)"
      using l same_image_trans [OF q(1) t] by (simp add: shared_def)
    ultimately show ?thesis using False True by auto
  next
    case far: False
    then have "read_at V inflate vfs_io off n s = (Err (vfs_io (str ''qcow2::seek'') InvalidInput), s)"
      by (simp add: e)
    with s False far show ?thesis by simp
  qed
qed

lemma source_reach_shared:
  "source_reach V inflate vfs_io r s \<Longrightarrow> reader_inv inv r \<Longrightarrow> shared r s"
proof (induction rule: source_reach.induct)
  case source_created
  then show ?case by (simp add: shared_def source_new_def same_image_refl)
next
  case (source_served s off n x t)
  from source_served.IH [OF source_served.prems] have "shared r s" .
  from read_at_run [OF this, of vfs_io off n] source_served.hyps(2) show ?case by auto
qed

text \<open>On a complete image the run is the slice of the disk.\<close>

lemma whole_disk_run:
  assumes "whole_disk inflate inv content r" and "unat off < unat (virtual_disk_size r)"
  shows "unat off < isize_limit"
    and "readable_run (byte_of inflate r) (unat off) (min n (unat (virtual_disk_size r) - unat off))
      = take n (drop (unat off) (reader_disk inflate content r))"
proof -
  have g: "guest_complete inflate (reader_cb r) (l1_table r) (content (backing r)) (unat (virtual_disk_size r))"
    using assms(1) by (simp add: whole_disk_def)
  then show "unat off < isize_limit" using assms(2) by (simp add: guest_complete_def)
  have "\<forall>i<min n (unat (virtual_disk_size r) - unat off). byte_of inflate r (unat off + i) \<noteq> None"
    using g by (auto simp: guest_complete_def)
  from readable_run_all [of _ "byte_of inflate r", OF this] show
    "readable_run (byte_of inflate r) (unat off) (min n (unat (virtual_disk_size r) - unat off))
      = take n (drop (unat off) (reader_disk inflate content r))"
    using assms(2) by (simp add: reader_disk_def guest_disk_def drop_map take_map) (simp add: min_def)
qed

lemma read_at_whole:
  assumes "shared r s" and w: "whole_disk inflate inv content r"
  shows "\<exists>t. read_at V inflate vfs_io off n s =
      (Ok (take n (drop (unat off) (reader_disk inflate content r))), t) \<and> shared r t"
proof (cases "virtual_disk_size r \<le> off")
  case True
  with read_at_run [OF assms(1), of vfs_io off n] show ?thesis by (auto simp: word_le_nat_alt)
next
  case False
  then have "unat off < unat (virtual_disk_size r)" by (simp add: word_le_nat_alt)
  note d = whole_disk_run [OF w this]
  have l: "length (take n (drop (unat off) (reader_disk inflate content r)))
      = min n (unat (virtual_disk_size r) - unat off)" by simp
  from read_at_run [OF assms(1), of vfs_io off n] False d obtain x t where
    "read_at V inflate vfs_io off n s = (x, t)" "shared r t"
    "run_outcome (byte_of inflate r) (unat off) (min n (unat (virtual_disk_size r) - unat off)) x"
    by auto
  with d l show ?thesis by (cases x) (simp_all add: run_outcome_def)
qed

end

section \<open>Properties\<close>

text \<open>
  C13. A shared source has no memory: in every state that any sequence of positioned reads, of any
  callers, can leave behind the lock, what a read at an offset gives is determined by the image,
  the offset and the count. At or past the end of the disk it is nothing; from 2^63 on it is the
  error of the seek; elsewhere it is the guest bytes from the offset up to the first that cannot
  be read, or an error if there is such a byte. On a complete disk (every byte readable, below
  2^63) it is exactly the slice.
\<close>

theorem positioned_reads:
  assumes "byte_source V ok content pos" and "reader_inv ok r"
    and "source_reach V inflate vfs_io r s"
  shows "(if virtual_disk_size r \<le> off then fst (read_at V inflate vfs_io off n s) = Ok []
      else if unat off < isize_limit then
        run_outcome (guest_byte inflate (reader_cb r) (l1_table r) (content (backing r))) (unat off)
          (min n (unat (virtual_disk_size r) - unat off)) (fst (read_at V inflate vfs_io off n s))
      else fst (read_at V inflate vfs_io off n s) = Err (vfs_io (str ''qcow2::seek'') InvalidInput)) \<and>
    (whole_disk inflate ok content r \<longrightarrow> fst (read_at V inflate vfs_io off n s)
      = Ok (take n (drop (unat off) (reader_disk inflate content r))))"
proof -
  note over = reader_over.intro [OF assms(1)]
  note s = reader_over.source_reach_shared [OF over assms(3,2)]
  from reader_over.read_at_run [where inflate = inflate and vfs_io = vfs_io and off = off and n = n, OF over s] obtain x t where
    e: "read_at V inflate vfs_io off n s = (x, t)" and x: "if virtual_disk_size r \<le> off then x = Ok []
      else if unat off < isize_limit then
        run_outcome (guest_byte inflate (reader_cb r) (l1_table r) (content (backing r))) (unat off)
          (min n (unat (virtual_disk_size r) - unat off)) x
      else x = Err (vfs_io (str ''qcow2::seek'') InvalidInput)"
    by blast
  from x show ?thesis
    unfolding e fst_conv
    by (intro conjI impI) (use reader_over.read_at_whole [where inflate = inflate and vfs_io = vfs_io and off = off and n = n, OF over s] e in auto)
qed

theorem positioned_reads_witness:
  "\<exists>x s. read_at cursor_ops no_inflate (\<lambda>_ e. e) 1 2 (source_new sample_reader) = (x, s) \<and>
    x = Ok [2, 3] \<and> fst (read_at cursor_ops no_inflate (\<lambda>_ e. e) 3 9 s) = Ok [4]"
proof -
  let ?s = "source_new sample_reader"
  let ?t = "snd (read_at cursor_ops no_inflate (\<lambda>_ e. e) 1 2 ?s)"
  note p = positioned_reads [OF cursor_source.byte_source_axioms sample_reader_fields(1),
      THEN conjunct2, rule_format, OF _ sample_whole]
  have r: "source_reach cursor_ops no_inflate (\<lambda>_ e. e) sample_reader ?s" by (rule source_created)
  then have r2: "source_reach cursor_ops no_inflate (\<lambda>_ e. e) sample_reader ?t"
    by (rule source_served) (rule prod.collapse [symmetric])
  from p [OF r, of 1 2] p [OF r2, of 3 9] show ?thesis
    by (auto simp: sample_reader_disk prod_eq_iff)
qed

text \<open>
  C14. In every state a shared source can reach, a positioned read at any offset does not panic and
  returns at most the bytes asked for, whatever the backing does.
\<close>

theorem source_never_panics:
  assumes "read_seek V ok" and "reader_inv ok r" and "source_reach V inflate vfs_io r s"
  shows "fst (read_at V inflate vfs_io off n s) \<noteq> Panic \<and>
    (\<forall>bs. fst (read_at V inflate vfs_io off n s) = Ok bs \<longrightarrow> length bs \<le> n)"
  using any_reader.read_at_safe [OF any_reader.intro [OF assms(1)], of inflate vfs_io off n]
    any_reader.source_reach_inv [OF any_reader.intro [OF assms(1)] assms(3,2)]
  by (auto simp: op_safe_def)

theorem source_never_panics_witness:
  "fst (read_at file_ops no_inflate (\<lambda>_ e. e) 0xffffffffffffffff 5 (source_new sample_reader)) \<noteq> Panic"
  using source_never_panics [OF file_bytes.read_seek_axioms sample_reader_fields(1) source_created]
  by blast

end
