(* ===== verification/Snapshots.thy ===== *)
theory Snapshots
  imports Header
begin

text \<open>
  core/src/snapshots.rs: the enumeration of the internal snapshots of an image.  The table is a
  packed sequence of variable-length records; \<open>snapshots_of\<close> walks it and stops at the first record
  it cannot read in full.  The specification \<open>snapshot_at\<close> / \<open>snapshot_table\<close> reads the same records
  from the bytes of the image, and \<open>entry_encode\<close> (the encoder of the module's tests) writes them.
\<close>

section \<open>Constants, records and fields\<close>

definition MAX_SNAPSHOTS :: u32 where
  "MAX_SNAPSHOTS = 65536"

definition MAX_STR_LEN :: u32 where
  "MAX_STR_LEN = 65536"

definition MAX_EXTRA_DATA :: u32 where
  "MAX_EXTRA_DATA = 65536"

definition SNAPSHOT_HEADER_FIXED :: nat where
  "SNAPSHOT_HEADER_FIXED = 40"

record qcow2_snapshot =
  snap_id :: rstring
  snap_name :: rstring
  snap_date_unix_secs :: u32
  snap_date_nsecs :: u32
  snap_vm_state_size :: u32

definition snap_be_u16 :: "u8 list \<Rightarrow> nat \<Rightarrow> u16" where
  "snap_be_u16 data off =
     from_be (case get_range data off (off + 2) of Some s \<Rightarrow> s | None \<Rightarrow> [0, 0])"

definition snap_be_u32 :: "u8 list \<Rightarrow> nat \<Rightarrow> u32" where
  "snap_be_u32 data off =
     from_be (case get_range data off (off + 4) of Some s \<Rightarrow> s | None \<Rightarrow> [0, 0, 0, 0])"

definition snap_be_u64 :: "u8 list \<Rightarrow> nat \<Rightarrow> u64" where
  "snap_be_u64 data off =
     from_be (case get_range data off (off + 8) of
       Some s \<Rightarrow> s | None \<Rightarrow> [0, 0, 0, 0, 0, 0, 0, 0])"

text \<open>The module's own copies of the field readers are those of the header module.\<close>

lemma snap_fields:
  "snap_be_u16 data off = be_word_at 2 data off"
  "snap_be_u32 data off = be_word_at 4 data off"
  "snap_be_u64 data off = be_word_at 8 data off"
  by (simp_all add: snap_be_u16_def snap_be_u32_def snap_be_u64_def be_word_at_def
      replicate_2 replicate_4 replicate_8 split: option.split)

section \<open>Reading one record\<close>

definition read_full :: "'b read_seek_ops \<Rightarrow> nat \<Rightarrow> ('b, io_error, u8 list) op" where
  "read_full V n = read_exact V n"

text \<open>\<open>skip\<close>: a relative seek that stays inside the file; the sum saturates at \<open>u64::MAX\<close>.\<close>

definition skip :: "'b read_seek_ops \<Rightarrow> ('b, io_error, u64) op \<Rightarrow> u64 \<Rightarrow> ('b, io_error, unit) op" where
  "skip V file_len n =
    st_bind file_len (\<lambda>len.
    st_bind (stream_position V) (\<lambda>pos.
    let target = (if unat pos + unat n < 2 ^ 64 then pos + n else - 1) in
    if len < target then st_err UnexpectedEof
    else st_bind (dev_seek V (SeekStart target)) (\<lambda>_. st_ret ())))"

definition read_string :: "'b read_seek_ops \<Rightarrow> u32 \<Rightarrow> ('b, 'e, rstring option) op" where
  "read_string V len =
    (if len = 0 then st_ret (Some [])
     else st_bind (st_ok (read_exact V (unat len))) (\<lambda>buf.
       st_ret (map_option from_utf8_lossy buf)))"

text \<open>
  The body of the loop: \<open>None\<close> is its \<open>break\<close>.  The sizes are capped, so the \<open>usize\<close> sum of
  \<open>consumed\<close> stays small; the result of skipping the padding is not looked at.
\<close>

definition read_snapshot ::
  "'b read_seek_ops \<Rightarrow> ('b, io_error, u64) op \<Rightarrow> ('b, 'e, qcow2_snapshot option) op" where
  "read_snapshot V file_len =
    st_bind (st_ok (read_full V SNAPSHOT_HEADER_FIXED)) (\<lambda>fixed_buf. case fixed_buf of
      None \<Rightarrow> st_ret None
    | Some fixed \<Rightarrow>
        let id_str_size = min (ucast (snap_be_u16 fixed 12)) MAX_STR_LEN;
            name_size = min (ucast (snap_be_u16 fixed 14)) MAX_STR_LEN;
            date_unix_secs = snap_be_u32 fixed 16;
            date_nsecs = snap_be_u32 fixed 20;
            vm_state_size = snap_be_u32 fixed 32;
            extra_data_size = min (snap_be_u32 fixed 36) MAX_EXTRA_DATA in
        st_bind (if 0 < extra_data_size then st_ok (skip V file_len (ucast extra_data_size))
                 else st_ret (Some ())) (\<lambda>skipped. case skipped of
          None \<Rightarrow> st_ret None
        | Some _ \<Rightarrow>
        st_bind (read_string V id_str_size) (\<lambda>id_read. case id_read of
          None \<Rightarrow> st_ret None
        | Some ident \<Rightarrow>
        st_bind (read_string V name_size) (\<lambda>name_read. case name_read of
          None \<Rightarrow> st_ret None
        | Some name \<Rightarrow>
        let consumed = SNAPSHOT_HEADER_FIXED + unat extra_data_size + unat id_str_size
              + unat name_size;
            pad = (8 - consumed mod 8) mod 8 in
        st_bind (if 0 < pad then st_ok (skip V file_len (of_nat pad)) else st_ret (Some ())) (\<lambda>_.
        st_ret (Some \<lparr>snap_id = ident, snap_name = name, snap_date_unix_secs = date_unix_secs,
                      snap_date_nsecs = date_nsecs, snap_vm_state_size = vm_state_size\<rparr>))))))"

fun snapshot_loop ::
  "'b read_seek_ops \<Rightarrow> ('b, io_error, u64) op \<Rightarrow> nat \<Rightarrow> ('b, 'e, qcow2_snapshot list) op" where
  "snapshot_loop V file_len 0 = st_ret []"
| "snapshot_loop V file_len (Suc n) =
     st_bind (read_snapshot V file_len) (\<lambda>rec. case rec of
       None \<Rightarrow> st_ret []
     | Some s \<Rightarrow> st_bind (snapshot_loop V file_len n) (\<lambda>rest. st_ret (s # rest)))"

section \<open>The enumeration\<close>

definition snapshots_of ::
  "'b read_seek_ops \<Rightarrow> ('b, io_error, u64) op \<Rightarrow> ('b, qcow2_error, qcow2_snapshot list) op" where
  "snapshots_of V file_len =
    st_bind (st_map_err Io (dev_read V 104)) (\<lambda>hdr.
    if 104 < length hdr then st_panic else
    if length hdr < MIN_HEADER_SIZE then st_err FileTooSmall else
    if snap_be_u32 hdr 0 \<noteq> MAGIC then st_err BadMagic else
    let nb_snapshots = min (snap_be_u32 hdr 60) MAX_SNAPSHOTS;
        snapshots_offset = snap_be_u64 hdr 64 in
    if nb_snapshots = 0 \<or> snapshots_offset = 0 then st_ret [] else
    st_bind (st_map_err Io (dev_seek V (SeekStart snapshots_offset))) (\<lambda>_.
    snapshot_loop V file_len (unat nb_snapshots)))"

definition snapshots :: "'p file_system \<Rightarrow> 'p \<Rightarrow> (qcow2_error, qcow2_snapshot list) outcome" where
  "snapshots fs path =
     and_then (file_open fs path) (\<lambda>file. fst (snapshots_of file_ops medium_len file))"

section \<open>The enumeration never panics and is bounded\<close>

context std_file
begin

lemma skip_safe: "op_safe inv (skip V file_len n) (\<lambda>_. True)"
  unfolding skip_def Let_def
  by (intro op_safe_bind [OF len_safe] op_safe_bind [OF position_safe] op_safe_bind [OF seek_safe]
      op_safe_if op_safe_ret op_safe_err)

lemma read_string_safe: "op_safe inv (read_string V len) (\<lambda>_. True)"
  unfolding read_string_def
  by (intro op_safe_if op_safe_ret op_safe_bind [OF op_safe_ok [OF read_exact_safe]]) simp_all

lemma op_safe_option:
  "op_safe inv f Q \<Longrightarrow> (\<And>a. op_safe inv (g a) Q) \<Longrightarrow>
     op_safe inv (case x of None \<Rightarrow> f | Some a \<Rightarrow> g a) Q"
  by (cases x) auto

lemma read_snapshot_safe: "op_safe inv (read_snapshot V file_len) (\<lambda>_. True)"
  unfolding read_snapshot_def read_full_def Let_def
  by (intro op_safe_bind [where R = "\<lambda>_. True"] op_safe_option op_safe_if op_safe_ret read_string_safe
      op_safe_ok [OF read_exact_safe] op_safe_ok [OF skip_safe]) simp_all

lemma snapshot_loop_safe: "op_safe inv (snapshot_loop V file_len n) (\<lambda>ss. length ss \<le> n)"
proof (induction n)
  case (Suc n)
  show ?case
    unfolding snapshot_loop.simps
    by (intro op_safe_bind [OF read_snapshot_safe] op_safe_option op_safe_bind [OF Suc] op_safe_ret)
       simp_all
qed (simp add: op_safe_ret)

lemma snapshots_of_safe: "op_safe inv (snapshots_of V file_len) (\<lambda>ss. length ss \<le> 65536)"
proof -
  have "unat (min n MAX_SNAPSHOTS) \<le> 65536" for n
    by (simp add: MAX_SNAPSHOTS_def min_def word_le_nat_alt)
  then show ?thesis
    unfolding snapshots_of_def Let_def
    by (intro op_safe_bind [OF op_safe_map_err [OF read_safe]] op_safe_if op_safe_ret op_safe_err
        op_safe_bind [OF op_safe_map_err [OF seek_safe]] op_safe_weaken [OF snapshot_loop_safe])
       (auto intro: le_trans)
qed

end

section \<open>The specification over the bytes of the image\<close>

definition padding :: "nat \<Rightarrow> nat" where
  "padding n = (8 - n mod 8) mod 8"

text \<open>
  The record at a position and the position of the next one; \<open>None\<close> when the record does not lie
  inside the image.  The padding after the last record may be missing.
\<close>

definition snapshot_at :: "u8 list \<Rightarrow> nat \<Rightarrow> (qcow2_snapshot \<times> nat) option" where
  "snapshot_at img p =
    (if length img < p + 40 then None else
     let fixed = take 40 (drop p img);
         idl = unat (be_word_at 2 fixed 12 :: u16);
         namel = unat (be_word_at 2 fixed 14 :: u16);
         extra = min (unat (be_word_at 4 fixed 36 :: u32)) 65536;
         p1 = p + 40 + extra;
         p2 = p1 + idl;
         p3 = p2 + namel;
         q = p3 + padding (40 + extra + idl + namel) in
     if length img < p3 then None
     else Some (\<lparr>snap_id = from_utf8_lossy (take idl (drop p1 img)),
                 snap_name = from_utf8_lossy (take namel (drop p2 img)),
                 snap_date_unix_secs = be_word_at 4 fixed 16,
                 snap_date_nsecs = be_word_at 4 fixed 20,
                 snap_vm_state_size = be_word_at 4 fixed 32\<rparr>,
                if q \<le> length img then q else p3))"

fun snapshot_table :: "nat \<Rightarrow> u8 list \<Rightarrow> nat \<Rightarrow> qcow2_snapshot list" where
  "snapshot_table 0 img p = []"
| "snapshot_table (Suc n) img p =
     (case snapshot_at img p of
        None \<Rightarrow> []
      | Some (s, q) \<Rightarrow> s # snapshot_table n img q)"

text \<open>
  The whole enumeration, from the bytes of the image.  A table that is claimed to lie beyond the
  signed offsets of a file is the one malformed table that is an error: the seek to it is refused.
\<close>

definition snapshots_result :: "u8 list \<Rightarrow> (qcow2_error, qcow2_snapshot list) outcome" where
  "snapshots_result img =
    (if length img < 72 then Err FileTooSmall
     else if be_word_at 4 img 0 \<noteq> MAGIC then Err BadMagic
     else let off = unat (be_word_at 8 img 64 :: u64);
              n = min (unat (be_word_at 4 img 60 :: u32)) 65536
       in if n = 0 \<or> off = 0 then Ok []
          else if isize_limit \<le> off then Err (Io InvalidInput)
          else Ok (snapshot_table n img off))"

section \<open>The enumeration implements the specification\<close>

lemma from_utf8_lossy_Nil: "from_utf8_lossy [] = []"
  by (simp add: from_utf8_lossy_valid)

lemma unat_ucast_u16: "unat (ucast w :: u32) = unat w" for w :: u16
proof -
  have "unat w < 2 ^ 32" using unsigned_less [of w, where 'a = nat] by simp
  then show ?thesis by (simp add: unsigned_ucast_eq take_bit_nat_eq_self)
qed

text \<open>The caps on the two string sizes are above any 16-bit size: they never bite.\<close>

lemma capped_u16: "min (ucast w) MAX_STR_LEN = (ucast w :: u32)" for w :: u16
proof -
  have "unat w < 2 ^ 16" using unsigned_less [of w, where 'a = nat] by simp
  then show ?thesis by (simp add: min_def word_le_nat_alt unat_ucast_u16 MAX_STR_LEN_def)
qed

context file_source
begin

definition at_pos :: "u8 list \<Rightarrow> nat \<Rightarrow> 'b \<Rightarrow> bool" where
  "at_pos img p b \<longleftrightarrow> inv b \<and> content b = img \<and> pos b = p"

lemma read_exact_at_pos:
  assumes "at_pos img p b"
  shows "p + n \<le> length img \<Longrightarrow>
      \<exists>b'. read_exact V n b = (Ok (take n (drop p img)), b') \<and> at_pos img (p + n) b'"
    and "length img < p + n \<Longrightarrow> 0 < n \<Longrightarrow> \<exists>b'. read_exact V n b = (Err UnexpectedEof, b')"
proof -
  have b: "inv b" "content b = img" "pos b = p" using assms by (auto simp: at_pos_def)
  from read_exact_spec [OF b(1), of n] b obtain b' where
    r: "read_exact V n b = (if n = 0 \<or> p + n \<le> length img then Ok (take n (drop p img))
        else Err UnexpectedEof, b')" "inv b'" "content b' = img"
      "pos b' = p + min n (length img - p)"
    by auto
  from r show "p + n \<le> length img \<Longrightarrow>
      \<exists>b'. read_exact V n b = (Ok (take n (drop p img)), b') \<and> at_pos img (p + n) b'"
    by (auto simp: at_pos_def)
  from r show "length img < p + n \<Longrightarrow> 0 < n \<Longrightarrow>
      \<exists>b'. read_exact V n b = (Err UnexpectedEof, b')"
    by auto
qed

lemma read_string_at_pos:
  assumes "at_pos img p b" and "p \<le> length img"
  shows "\<exists>b'. read_string V len b =
      (Ok (if p + unat len \<le> length img then Some (from_utf8_lossy (take (unat len) (drop p img)))
           else None) :: (qcow2_error, rstring option) outcome, b') \<and> (p + unat len \<le> length img \<longrightarrow> at_pos img (p + unat len) b')"
proof (cases "len = 0")
  case True
  with assms show ?thesis
    by (auto simp: read_string_def st_simps from_utf8_lossy_Nil)
next
  case False
  then have n: "0 < unat len" by (simp add: unat_gt_0)
  show ?thesis
  proof (cases "p + unat len \<le> length img")
    case True
    from read_exact_at_pos(1) [OF assms(1) True] False True show ?thesis
      by (auto simp: read_string_def st_bind_def st_ok_def st_simps)
  next
    case f: False
    then have "length img < p + unat len" by simp
    from read_exact_at_pos(2) [OF assms(1) this n] False f show ?thesis
      by (auto simp: read_string_def st_bind_def st_ok_def st_simps)
  qed
qed

lemma skip_at_pos:
  assumes b: "at_pos img p b" and p: "p \<le> length img" and n: "unat n < isize_limit"
  shows "\<exists>b'. st_ok (skip V file_len n) b =
      (Ok (if p + unat n \<le> length img then Some () else None) :: (qcow2_error, unit option) outcome, b')
    \<and> at_pos img (if p + unat n \<le> length img then p + unat n else p) b'"
proof -
  have i: "inv b" and c: "content b = img" and pb: "pos b = p" using b by (auto simp: at_pos_def)
  have l: "length img < isize_limit" using content_bound [OF i] c by simp
  from len_spec [OF i] obtain b1 where
    e1: "file_len b = (Ok (of_nat (length img)), b1)" "content b1 = img" "pos b1 = p"
    using c pb by auto
  from op_safeD(2) [OF len_safe i e1(1)] have i1: "inv b1" .
  have "pos b1 < isize_limit" using p l e1(3) by simp
  from position_spec [OF i1 this] obtain b2 where
    e2: "stream_position V b1 = (Ok (of_nat p), b2)" "content b2 = img" "pos b2 = p"
    using e1 by auto
  from op_safeD(2) [OF position_safe i1 e2(1)] have i2: "inv b2" .
  have up: "unat (of_nat p :: u64) = p" "unat (of_nat (length img) :: u64) = length img"
    using p l by (simp_all only: unat_of_nat) (simp_all add: isize_limit_def)
  have "unat (of_nat p :: u64) + unat n < 2 ^ 64"
    using up p l n by (simp add: isize_limit_def)
  then have t: "(if unat (of_nat p :: u64) + unat n < 2 ^ 64 then of_nat p + n else - 1) = of_nat p + n"
    and ut: "unat (of_nat p + n :: u64) = p + unat n"
    using up unat_plus_no_overflow [of "of_nat p :: u64" n] by simp_all
  have lt: "of_nat (length img) < (of_nat p + n :: u64) \<longleftrightarrow> \<not> p + unat n \<le> length img"
    by (simp only: word_less_nat_alt ut up not_le)
  show ?thesis
  proof (cases "p + unat n \<le> length img")
    case True
    then have "unat (of_nat p + n :: u64) < isize_limit" using ut l by simp
    from seek_near [OF i2 this] obtain b3 where
      e3: "dev_seek V (SeekStart (of_nat p + n)) b2 = (Ok (of_nat p + n), b3)"
        "content b3 = img" "pos b3 = p + unat n"
      using e2 ut by auto
    from op_safeD(2) [OF seek_safe i2 e3(1)] have "inv b3" .
    with True e1 e2 e3 show ?thesis
      by (simp only: skip_def st_ok_def st_bind_def Let_def t lt prod.case outcome.case if_False simp_thms if_True st_ret_apply)
         (simp add: at_pos_def)
  next
    case False
    with e1 e2 i2 show ?thesis
      by (simp only: skip_def st_ok_def st_bind_def Let_def t lt prod.case outcome.case if_False simp_thms if_True st_err_apply)
         (simp add: at_pos_def)
  qed
qed

lemma skip_if_at_pos:
  assumes b: "at_pos img p b" and p: "p \<le> length img" and n: "unat n < isize_limit" "P \<longleftrightarrow> 0 < unat n"
  shows "\<exists>b'. (if P then st_ok (skip V file_len n) else st_ret (Some ())) b =
      (Ok (if p + unat n \<le> length img then Some () else None) :: (qcow2_error, unit option) outcome, b')
    \<and> at_pos img (if p + unat n \<le> length img then p + unat n else p) b'"
  using skip_at_pos [OF b p n(1)] n(2) b p by (cases P) (simp_all add: st_ret_apply)

lemma read_snapshot_spec:
  assumes b: "at_pos img p b"
  shows "\<exists>b'. read_snapshot V file_len b = (Ok (map_option fst (snapshot_at img p)) :: (qcow2_error, qcow2_snapshot option) outcome, b') \<and>
    (case snapshot_at img p of None \<Rightarrow> True | Some (s, q) \<Rightarrow> at_pos img q b')"
proof (cases "p + 40 \<le> length img")
  case False
  then have "length img < p + 40" by simp
  from read_exact_at_pos(2) [OF b this] show ?thesis
    using False by (auto simp: read_snapshot_def read_full_def SNAPSHOT_HEADER_FIXED_def
        st_bind_def st_ok_def st_ret_apply snapshot_at_def)
next
  case True
  define fixed where "fixed = take 40 (drop p img)"
  define iw nw where "iw = (be_word_at 2 fixed 12 :: u16)" and "nw = (be_word_at 2 fixed 14 :: u16)"
  define xw where "xw = min (be_word_at 4 fixed 36) MAX_EXTRA_DATA"
  define il nl x where "il = unat iw" and "nl = unat nw" and "x = unat xw"
  define pw :: u64 where "pw = of_nat (padding (40 + x + il + nl))"
  have x: "x = min (unat (be_word_at 4 fixed 36 :: u32)) 65536"
    by (simp add: x_def xw_def unat_min_u32 MAX_EXTRA_DATA_def)
  have ux: "unat (ucast xw :: u64) = x" "0 < xw \<longleftrightarrow> 0 < unat (ucast xw :: u64)"
    "unat (ucast xw :: u64) < isize_limit"
    using x by (simp_all add: unat_ucast_u32 x_def word_less_nat_alt isize_limit_def)
  have "padding (40 + x + il + nl) < 8" by (simp add: padding_def)
  then have pw: "unat pw = padding (40 + x + il + nl)"
    by (simp only: pw_def unat_of_nat) simp
  from read_exact_at_pos(1) [OF b True] obtain b1 where
    "read_exact V 40 b = (Ok fixed, b1)" and b1: "at_pos img (p + 40) b1"
    by (auto simp: fixed_def)
  then have e1: "st_ok (read_exact V 40) b = (Ok (Some fixed) :: (qcow2_error, u8 list option) outcome, b1)"
    by (simp add: st_ok_def)
  from skip_if_at_pos [OF b1 True ux(3) ux(2)] obtain b2 where
    e2: "(if 0 < xw then st_ok (skip V file_len (ucast xw)) else st_ret (Some ())) b1
      = (Ok (if p + 40 + x \<le> length img then Some () else None) :: (qcow2_error, unit option) outcome, b2)"
    and b2: "at_pos img (if p + 40 + x \<le> length img then p + 40 + x else p + 40) b2"
    unfolding ux(1) by blast
  let ?pad = "padding (40 + x + il + nl)"
  note run = read_snapshot_def read_full_def SNAPSHOT_HEADER_FIXED_def Let_def snap_fields
    capped_u16 iw_def [symmetric] nw_def [symmetric] xw_def [symmetric]
  note at = snapshot_at_def Let_def fixed_def [symmetric] iw_def [symmetric] nw_def [symmetric]
    x [symmetric] il_def [symmetric] nl_def [symmetric]
  show ?thesis
  proof (cases "p + 40 + x \<le> length img")
    case False
    with e1 e2 True show ?thesis
      by (simp add: run at st_bind_def st_ret_apply not_le)
  next
    case px: True
    note px' = px [unfolded add.assoc]
    from read_string_at_pos [OF b2 [unfolded if_P [OF px]] px, of "ucast iw"] obtain b3 where
      e3: "read_string V (ucast iw) b2 = (Ok (if p + 40 + x + il \<le> length img
          then Some (from_utf8_lossy (take il (drop (p + 40 + x) img))) else None) :: (qcow2_error, rstring option) outcome, b3)"
      and b3: "p + 40 + x + il \<le> length img \<longrightarrow> at_pos img (p + 40 + x + il) b3"
      unfolding unat_ucast_u16 il_def by blast
    show ?thesis
    proof (cases "p + 40 + x + il \<le> length img")
      case False
      with e1 e2 e3 True px show ?thesis
        by (simp add: run at st_bind_def st_ret_apply not_le)
    next
      case pi: True
      from read_string_at_pos [OF b3 [rule_format, OF pi] pi, of "ucast nw"] obtain b4 where
        e4: "read_string V (ucast nw) b3 = (Ok (if p + 40 + x + il + nl \<le> length img
            then Some (from_utf8_lossy (take nl (drop (p + 40 + x + il) img))) else None) :: (qcow2_error, rstring option) outcome, b4)"
        and b4: "p + 40 + x + il + nl \<le> length img \<longrightarrow> at_pos img (p + 40 + x + il + nl) b4"
        unfolding unat_ucast_u16 nl_def by blast
      show ?thesis
      proof (cases "p + 40 + x + il + nl \<le> length img")
        case False
        with e1 e2 e3 e4 True px pi show ?thesis
          by (simp add: run at st_bind_def st_ret_apply not_le)
      next
        case pn: True
        have pad: "(8 - (40 + unat xw + unat (ucast iw :: u32) + unat (ucast nw :: u32)) mod 8) mod 8
            = padding (40 + x + il + nl)"
          by (simp add: padding_def unat_ucast_u16 x_def il_def nl_def)
        have "unat pw < isize_limit" using pw by (simp add: padding_def isize_limit_def)
        from skip_if_at_pos [OF b4 [rule_format, OF pn] pn this, of "0 < ?pad"] obtain b5 where
          e5: "(if 0 < ?pad then st_ok (skip V file_len pw) else st_ret (Some ())) b4
            = (Ok (if p + 40 + x + il + nl + ?pad \<le> length img then Some () else None) :: (qcow2_error, unit option) outcome, b5)"
          and b5: "at_pos img (if p + 40 + x + il + nl + ?pad \<le> length img
              then p + 40 + x + il + nl + ?pad else p + 40 + x + il + nl) b5"
          unfolding pw by blast
        show ?thesis
          using e1 e2 e3 e4 e5 b5 True px pi pn
          by (cases "0 < ?pad"; cases "p + 40 + x + il + nl + ?pad \<le> length img")
             (simp_all add: run at st_bind_def st_ret_apply not_le not_less pad pw_def [symmetric])
      qed
    qed
  qed
qed
lemma snapshot_loop_spec:
  "at_pos img p b \<Longrightarrow> fst (snapshot_loop V file_len n b :: (qcow2_error, _) outcome \<times> 'b)
     = Ok (snapshot_table n img p)"
proof (induction n arbitrary: p b)
  case (Suc n)
  from read_snapshot_spec [OF Suc.prems] obtain b' where
    e: "read_snapshot V file_len b =
      (Ok (map_option fst (snapshot_at img p)) :: (qcow2_error, qcow2_snapshot option) outcome, b')"
    and b': "case snapshot_at img p of None \<Rightarrow> True | Some (s, q) \<Rightarrow> at_pos img q b'"
    by blast
  show ?case
  proof (cases "snapshot_at img p")
    case None
    with e show ?thesis by (simp add: st_bind_def st_ret_apply)
  next
    case (Some sq)
    obtain s q where sq: "sq = (s, q)" by fastforce
    with b' Some have "at_pos img q b'" by simp
    from Suc.IH [OF this] e Some sq show ?thesis
      by (auto simp: st_bind_def st_ret_apply split: prod.splits outcome.splits)
  qed
qed (simp add: st_ret_apply)

lemma snapshots_of_spec:
  assumes b: "inv b" and p: "pos b = 0"
  shows "fst (snapshots_of V file_len b) = snapshots_result (content b)"
proof -
  let ?img = "content b" and ?hdr = "take 104 (content b)"
  from read_all [OF b, of 104] p obtain b1 where r: "dev_read V 104 b = (Ok ?hdr, b1)" by auto
  from read_pieceE [OF b, of 104] r have b1: "inv b1" "content b1 = ?img" by auto
  let ?off = "be_word_at 8 ?img 64 :: u64"
  let ?n = "min (be_word_at 4 ?img 60) MAX_SNAPSHOTS"
  have n: "unat ?n = min (unat (be_word_at 4 ?img 60 :: u32)) 65536"
    by (simp add: unat_min_u32 MAX_SNAPSHOTS_def)
  have n0: "?n = 0 \<longleftrightarrow> unat ?n = 0" by (simp only: unat_eq_0)
  have o0: "unat ?off = 0 \<longleftrightarrow> ?off = 0" by (simp only: unat_eq_0)
  have hl: "length ?hdr < 72 \<longleftrightarrow> length ?img < 72" "\<not> 104 < length ?hdr" by auto
  note defs = hl o0 st_bind_def st_map_err_def st_err_apply st_ret_apply snap_fields be_word_at_take
    Let_def MIN_HEADER_SIZE_def n n0
  show ?thesis
  proof (cases "unat ?off < isize_limit")
    case True
    from seek_near [OF b1(1) True] b1 obtain b2 where
      s: "dev_seek V (SeekStart ?off) b1 = (Ok ?off, b2)" "content b2 = ?img" "pos b2 = unat ?off"
      by auto
    from op_safeD(2) [OF seek_safe b1(1) s(1)] s(2,3) have "at_pos ?img (unat ?off) b2"
      by (simp add: at_pos_def)
    from snapshot_loop_spec [OF this, of "unat ?n"] True show ?thesis
      using r s(1) unfolding snapshots_of_def snapshots_result_def
      by (cases "?off = 0"; cases "?n = 0") (simp_all del: length_take add: defs)
  next
    case False
    with seek_refused [OF b1(1), of ?off] obtain b2 where
      "dev_seek V (SeekStart ?off) b1 = (Err InvalidInput, b2)" by auto
    with r False show ?thesis
      unfolding snapshots_of_def snapshots_result_def
      by (cases "?off = 0"; cases "?n = 0") (simp_all del: length_take add: defs, simp add: min_def)
  qed
qed

end

text \<open>Of a path, from the bytes of the file.\<close>

lemma snapshots_bytes:
  assumes "fs path = Inr bs" and "length bs < isize_limit"
  shows "snapshots fs path \<noteq> Panic"
    and "snapshots fs path = snapshots_result bs"
proof -
  have m: "medium_ok (medium_of bs)" using assms(2) by (simp add: medium_ok_def medium_of_def)
  then show "snapshots fs path \<noteq> Panic"
    using regular_file.snapshots_of_safe by (auto simp: op_safe_def snapshots_def file_open_def assms(1))
  show "snapshots fs path = snapshots_result bs"
    using regular_file.snapshots_of_spec [OF m]
    by (simp add: snapshots_def file_open_def assms(1) medium_of_def)
qed

section \<open>The encoder\<close>

record snapshot_entry =
  e_secs :: u32
  e_nsecs :: u32
  e_vm_state_size :: u32
  e_extra :: "u8 list"
  e_id :: "u8 list"
  e_name :: "u8 list"

definition entry_fixed :: "snapshot_entry \<Rightarrow> u8 list" where
  "entry_fixed e =
     replicate 12 0 @ to_be 2 (of_nat (length (e_id e)) :: u16)
     @ to_be 2 (of_nat (length (e_name e)) :: u16) @ to_be 4 (e_secs e) @ to_be 4 (e_nsecs e)
     @ replicate 8 0 @ to_be 4 (e_vm_state_size e) @ to_be 4 (of_nat (length (e_extra e)) :: u32)"

definition entry_encode :: "snapshot_entry \<Rightarrow> u8 list" where
  "entry_encode e = entry_fixed e @ e_extra e @ e_id e @ e_name e
     @ replicate (padding (40 + length (e_extra e) + length (e_id e) + length (e_name e))) 0"

definition entry_ok :: "snapshot_entry \<Rightarrow> bool" where
  "entry_ok e \<longleftrightarrow> length (e_extra e) \<le> 65536 \<and> length (e_id e) < 65536 \<and> length (e_name e) < 65536"

definition entry_snapshot :: "snapshot_entry \<Rightarrow> qcow2_snapshot" where
  "entry_snapshot e =
     \<lparr>snap_id = from_utf8_lossy (e_id e), snap_name = from_utf8_lossy (e_name e),
      snap_date_unix_secs = e_secs e, snap_date_nsecs = e_nsecs e,
      snap_vm_state_size = e_vm_state_size e\<rparr>"

lemma length_entry_fixed [simp]: "length (entry_fixed e) = 40"
  by (simp add: entry_fixed_def)

lemma entry_fixed_fields:
  "be_word_at 2 (entry_fixed e) 12 = (of_nat (length (e_id e)) :: u16)"
  "be_word_at 2 (entry_fixed e) 14 = (of_nat (length (e_name e)) :: u16)"
  "be_word_at 4 (entry_fixed e) 16 = e_secs e"
  "be_word_at 4 (entry_fixed e) 20 = e_nsecs e"
  "be_word_at 4 (entry_fixed e) 32 = e_vm_state_size e"
  "be_word_at 4 (entry_fixed e) 36 = (of_nat (length (e_extra e)) :: u32)"
  by (simp_all add: entry_fixed_def be_word_at_def get_range_def)

lemma snapshot_at_encoded:
  assumes "entry_ok e"
  shows "snapshot_at (pre @ entry_encode e @ rest) (length pre)
    = Some (entry_snapshot e, length (pre @ entry_encode e))"
proof -
  have u: "unat (of_nat (length (e_id e)) :: u16) = length (e_id e)"
    "unat (of_nat (length (e_name e)) :: u16) = length (e_name e)"
    "unat (of_nat (length (e_extra e)) :: u32) = length (e_extra e)"
    using assms by (simp_all add: entry_ok_def unat_of_nat)
  have f: "take 40 (drop (length pre) (pre @ entry_encode e @ rest)) = entry_fixed e"
    by (simp add: entry_encode_def)
  show ?thesis
    using assms unfolding snapshot_at_def Let_def f entry_fixed_fields u
    by (simp add: entry_encode_def entry_snapshot_def entry_ok_def)
qed

lemma snapshot_table_short: "length img < p + 40 \<Longrightarrow> snapshot_table n img p = []"
  by (cases n) (simp_all add: snapshot_at_def)

lemma snapshot_table_encoded:
  assumes "list_all entry_ok es" and "length es \<le> n"
    and "n = length es \<or> length rest < 40"
  shows "snapshot_table n (pre @ concat (map entry_encode es) @ rest) (length pre)
    = map entry_snapshot es"
  using assms
proof (induction es arbitrary: pre n)
  case Nil
  then show ?case by (cases "n = 0") (auto simp: snapshot_table_short)
next
  case (Cons e es)
  then obtain m where n: "n = Suc m" by (cases n) auto
  have "snapshot_at (pre @ entry_encode e @ concat (map entry_encode es) @ rest) (length pre)
      = Some (entry_snapshot e, length (pre @ entry_encode e))"
    using Cons.prems(1) by (intro snapshot_at_encoded) simp
  moreover have "snapshot_table m ((pre @ entry_encode e) @ concat (map entry_encode es) @ rest)
      (length (pre @ entry_encode e)) = map entry_snapshot es"
    using Cons.prems n by (intro Cons.IH) auto
  ultimately show ?case using n by simp
qed

section \<open>Properties\<close>

text \<open>
  C21. On a file in working order the enumeration, with its seeks, partial reads and skipped padding,
  is a function of the bytes of the image: the walk over the records from the snapshot offset,
  capped at 65536 of them, each taken only if it lies in the file, and nothing when the count or
  the offset is 0. One malformed table is an error all the same: an offset from 2^63 on, to
  which the seek is refused.
\<close>

theorem snapshots_from_bytes:
  assumes "file_source V ok content pos file_len" and "ok b" and "pos b = 0"
  shows "fst (snapshots_of V file_len b) = snapshots_result (content b)"
  using assms by (rule file_source.snapshots_of_spec)

text \<open>
  A header that points to a snapshot table (\<open>header\<close> of the tests), and the image it heads: zeros
  up to the table, the entries, and whatever follows them.
\<close>

definition snapshot_header :: "u32 \<Rightarrow> u64 \<Rightarrow> u8 list" where
  "snapshot_header nb snap_off =
    (let h = replicate 104 0;
         h = put h 0 (to_be 4 MAGIC);
         h = put h 4 (to_be 4 (3 :: u32));
         h = put h 20 (to_be 4 (16 :: u32));
         h = put h 60 (to_be 4 nb)
     in put h 64 (to_be 8 snap_off))"

definition snapshot_image :: "u32 \<Rightarrow> u64 \<Rightarrow> snapshot_entry list \<Rightarrow> u8 list \<Rightarrow> u8 list" where
  "snapshot_image nb snap_off es rest =
     snapshot_header nb snap_off @ replicate (unat snap_off - 104) 0 @ concat (map entry_encode es) @ rest"

lemma snapshot_header_writes:
  "snapshot_header nb off = writes [(0, to_be 4 MAGIC), (4, to_be 4 (3 :: u32)), (20, to_be 4 (16 :: u32)),
     (60, to_be 4 nb), (64, to_be 8 off)] (replicate 104 0)"
  by (simp only: snapshot_header_def Let_def writes_def foldl.simps prod.case)

lemma length_snapshot_header [simp]: "length (snapshot_header nb off) = 104"
  by (simp add: snapshot_header_writes writes_fit_def)

lemma snapshot_image_fields:
  "be_word_at 4 (snapshot_image nb off es rest) 0 = MAGIC"
  "be_word_at 4 (snapshot_image nb off es rest) 60 = nb"
  "be_word_at 8 (snapshot_image nb off es rest) 64 = off"
proof -
  have "be_word_at 4 (snapshot_header nb off) 0 = MAGIC" "be_word_at 4 (snapshot_header nb off) 60 = nb"
    "be_word_at 8 (snapshot_header nb off) 64 = off"
    unfolding snapshot_header_writes
    by (rule word_of_write; simp add: writes_fit_def writes_ascend_def)+
  then show "be_word_at 4 (snapshot_image nb off es rest) 0 = MAGIC"
    "be_word_at 4 (snapshot_image nb off es rest) 60 = nb"
    "be_word_at 8 (snapshot_image nb off es rest) 64 = off"
    by (simp_all add: snapshot_image_def be_word_at_append)
qed

lemma snapshots_result_image:
  assumes "104 \<le> unat off" and "list_all entry_ok es" and "length es \<le> 65536"
    and "length es \<le> unat nb" and "unat nb = length es \<or> length rest < 40"
    and "unat off < isize_limit"
  shows "snapshots_result (snapshot_image nb off es rest) = Ok (map entry_snapshot es)"
proof -
  let ?pre = "snapshot_header nb off @ replicate (unat off - 104) 0"
  have "snapshot_table (min (unat nb) 65536) (?pre @ concat (map entry_encode es) @ rest)
      (length ?pre) = map entry_snapshot es"
    using assms by (intro snapshot_table_encoded) auto
  then show ?thesis
    using assms(1,4,6) unfolding snapshots_result_def snapshot_image_fields
    by (auto simp: snapshot_image_def Let_def)
qed

text \<open>
  C20. Round trip of the snapshot table: any sequence of encoded entries (with extra data, ids and
  names, padded to eight bytes) is read back in order; with a count above the entries the
  enumeration stops at the truncated record and keeps the ones before it.
\<close>

theorem snapshots_roundtrip:
  assumes "fs path = Inr (snapshot_image nb off es rest)"
    and "length (snapshot_image nb off es rest) < isize_limit" and "104 \<le> unat off"
    and "list_all entry_ok es" and "length es \<le> 65536" and "length es \<le> unat nb"
    and "unat nb = length es \<or> length rest < 40"
  shows "snapshots fs path = Ok (map entry_snapshot es)"
proof -
  let ?m = "medium_of (snapshot_image nb off es rest)"
  have far: "unat off < isize_limit" using assms(2,3) by (simp add: snapshot_image_def)
  have "medium_ok ?m" using assms(2) by (simp add: medium_ok_def medium_of_def)
  then have
    "fst (snapshots_of file_ops medium_len ?m) = snapshots_result (snapshot_image nb off es rest)"
    using regular_file.snapshots_of_spec [of ?m] by (simp add: medium_of_def snapshot_image_fields)
  then show ?thesis
    using snapshots_result_image [OF assms(3-7) far] assms(1)
    by (simp add: snapshots_def file_open_def)
qed

definition two_snapshots :: "snapshot_entry list" where
  "two_snapshots =
     [\<lparr>e_secs = 1700000000, e_nsecs = 123, e_vm_state_size = 4096, e_extra = replicate 16 0,
       e_id = str ''1'', e_name = str ''alpha''\<rparr>,
      \<lparr>e_secs = 1700000050, e_nsecs = 0, e_vm_state_size = 0, e_extra = [],
       e_id = str ''2'', e_name = str ''beta-name''\<rparr>]"

lemma length_entry_encode:
  "length (entry_encode e) = 40 + length (e_extra e) + length (e_id e) + length (e_name e)
     + padding (40 + length (e_extra e) + length (e_id e) + length (e_name e))"
  by (simp add: entry_encode_def)

lemma length_two_snapshots: "length (snapshot_image nb 512 two_snapshots (replicate 10 0)) = 642"
  by (simp add: snapshot_image_def two_snapshots_def length_entry_encode padding_def str_def)

theorem snapshots_roundtrip_witness:
  "map snap_name (case snapshots (\<lambda>_ :: unit. Inr (snapshot_image 3 512 two_snapshots (replicate 10 0))) ()
     of Ok ss \<Rightarrow> ss | _ \<Rightarrow> []) = [str ''alpha'', str ''beta-name'']"
proof -
  have "length (snapshot_image 3 512 two_snapshots (replicate 10 0)) < isize_limit"
    unfolding length_two_snapshots by (simp add: isize_limit_def)
  from snapshots_roundtrip [of "\<lambda>_ :: unit. Inr (snapshot_image 3 512 two_snapshots (replicate 10 0))",
      OF refl this]
  have "snapshots (\<lambda>_ :: unit. Inr (snapshot_image 3 512 two_snapshots (replicate 10 0))) ()
      = Ok (map entry_snapshot two_snapshots)"
    by (simp add: two_snapshots_def entry_ok_def str_def)
  moreover have "from_utf8_lossy (str ''alpha'') = str ''alpha''"
    "from_utf8_lossy (str ''beta-name'') = str ''beta-name''"
    by (rule from_utf8_lossy_valid [OF utf8_valid_ascii], simp add: str_def)+
  ultimately show ?thesis by (simp add: two_snapshots_def entry_snapshot_def)
qed

theorem snapshots_from_bytes_witness:
  "fst (snapshots_of file_ops medium_len (medium_of (snapshot_image 3 512 two_snapshots (replicate 10 0))))
    = Ok (map entry_snapshot two_snapshots)"
proof -
  let ?img = "snapshot_image 3 512 two_snapshots (replicate 10 0)"
  have "medium_ok (medium_of ?img)"
    using length_two_snapshots [of 3] by (simp add: medium_ok_def medium_of_def isize_limit_def)
  from snapshots_from_bytes [OF regular_file.file_source_axioms this] have
    "fst (snapshots_of file_ops medium_len (medium_of ?img)) = snapshots_result ?img"
    by (simp add: medium_of_def)
  also have "\<dots> = Ok (map entry_snapshot two_snapshots)"
    by (rule snapshots_result_image) (simp_all add: two_snapshots_def entry_ok_def str_def isize_limit_def)
  finally show ?thesis .
qed

text \<open>
  C22. The enumeration never panics and returns at most 65536 snapshots, on any file and with any I/O
  errors.
\<close>

theorem snapshots_never_panic:
  assumes "std_file V ok file_len" and "ok b"
  shows "fst (snapshots_of V file_len b) \<noteq> Panic \<and>
    (\<forall>ss. fst (snapshots_of V file_len b) = Ok ss \<longrightarrow> length ss \<le> 65536)"
  using op_safeD [OF std_file.snapshots_of_safe [OF assms(1)] assms(2)]
  by (metis prod.collapse)

theorem snapshots_never_panic_witness:
  "fst (snapshots_of file_ops medium_len (medium_of (snapshot_header 0xffffffff 104))) \<noteq> Panic"
  using snapshots_never_panic [OF regular_file.std_file_axioms, of "medium_of (snapshot_header 0xffffffff 104)"]
  by (simp add: medium_ok_def medium_of_def isize_limit_def)

end
