(* ===== verification/Refcount.thy ===== *)
theory Refcount
  imports Header
begin

text \<open>
  core/src/refcount.rs: the refcount lookup and the scan for clusters that the active L1/L2
  mapping reaches although their refcount is 0.  \<open>bit_field\<close> and \<open>refcount_value\<close> specify a
  refcount as a field of bits of the image, for all seven widths at once, and \<open>report_result\<close>
  specifies the report from the bytes of the image.
\<close>

section \<open>Constants, fields and the report\<close>

definition RC_MAX_L1_ENTRIES :: nat where
  "RC_MAX_L1_ENTRIES = 2 ^ 20"

definition MAX_CLUSTERS_SCANNED :: u64 where
  "MAX_CLUSTERS_SCANNED = push_bit 20 16"

record refcount_report =
  rr_refcount_order :: u32
  rr_table_offset :: u64
  rr_table_clusters :: u32
  rr_allocated_clusters :: u64
  rr_orphan_clusters :: u64

definition rc_be_u32 :: "u8 list \<Rightarrow> nat \<Rightarrow> u32" where
  "rc_be_u32 data off =
     from_be (case get_range data off (off + 4) of Some s \<Rightarrow> s | None \<Rightarrow> [0, 0, 0, 0])"

definition rc_be_u64 :: "u8 list \<Rightarrow> nat \<Rightarrow> u64" where
  "rc_be_u64 data off =
     from_be (case get_range data off (off + 8) of
       Some s \<Rightarrow> s | None \<Rightarrow> [0, 0, 0, 0, 0, 0, 0, 0])"

lemma rc_fields:
  "rc_be_u32 data off = be_word_at 4 data off"
  "rc_be_u64 data off = be_word_at 8 data off"
  by (simp_all add: rc_be_u32_def rc_be_u64_def be_word_at_def replicate_4 replicate_8
      split: option.split)

section \<open>Tables\<close>

text \<open>
  The fail-loud reader of a table, with the \<open>usize\<close> product \<open>n * 8\<close>, and the lenient one, which
  turns a failure into the empty table.
\<close>

definition read_u64_table_checked ::
  "'b read_seek_ops \<Rightarrow> u64 \<Rightarrow> nat \<Rightarrow> ('b, qcow2_error, u64 list) op" where
  "read_u64_table_checked V offset n =
    (if n = 0 \<or> offset = 0 then st_ret [] else
     st_bind (st_map_err Io (dev_seek V (SeekStart offset))) (\<lambda>_.
     if usize_limit \<le> n * 8 then st_panic else
     st_bind (st_map_err Io (read_exact V (n * 8))) (\<lambda>buf. st_ret (be_u64_table buf))))"

definition read_u64_table ::
  "'b read_seek_ops \<Rightarrow> u64 \<Rightarrow> nat \<Rightarrow> ('b, qcow2_error, u64 list) op" where
  "read_u64_table V offset n =
    st_bind (st_ok (read_u64_table_checked V offset n)) (\<lambda>t.
    st_ret (case t of None \<Rightarrow> [] | Some table \<Rightarrow> table))"

definition rc_read_at ::
  "'b read_seek_ops \<Rightarrow> u64 \<Rightarrow> nat \<Rightarrow> ('b, qcow2_error, u8 list option) op" where
  "rc_read_at V offset n =
    st_bind (st_ok (dev_seek V (SeekStart offset))) (\<lambda>found. case found of
      None \<Rightarrow> st_ret None
    | Some _ \<Rightarrow> st_ok (read_exact V n))"

section \<open>The refcount of a cluster\<close>

text \<open>The bits of a refcount narrower than a byte: packed from the most significant bit on.\<close>

definition sub_byte :: "u32 \<Rightarrow> u64 \<Rightarrow> u8 \<Rightarrow> ('e, u64) outcome" where
  "sub_byte bits bit_off b =
    (let within = ucast (bit_off mod 8) in
     and_then (shl_chk 1 bits) (\<lambda>top.
     and_then (sub_chk top 1) (\<lambda>mask.
     and_then (sub_chk 8 within) (\<lambda>after.
     and_then (sub_chk after bits) (\<lambda>shift.
     and_then (shr_chk (ucast b) shift) (\<lambda>v. Ok (v AND mask)))))))"

definition read_refcount ::
  "'b read_seek_ops \<Rightarrow> u32 \<Rightarrow> u64 \<Rightarrow> u64 \<Rightarrow> ('b, qcow2_error, u64 option) op" where
  "read_refcount V bits bit_off byte_off =
    (if bits = 8 then st_bind (rc_read_at V byte_off 1) (\<lambda>b.
       st_ret (map_option (\<lambda>b. ucast (from_be b :: u8)) b))
     else if bits = 16 then st_bind (rc_read_at V byte_off 2) (\<lambda>b.
       st_ret (map_option (\<lambda>b. ucast (from_be b :: u16)) b))
     else if bits = 32 then st_bind (rc_read_at V byte_off 4) (\<lambda>b.
       st_ret (map_option (\<lambda>b. ucast (from_be b :: u32)) b))
     else if bits = 64 then st_bind (rc_read_at V byte_off 8) (\<lambda>b.
       st_ret (map_option from_be b))
     else if bits = 1 \<or> bits = 2 \<or> bits = 4 then
       st_bind (rc_read_at V byte_off 1) (\<lambda>b. case b of
         None \<Rightarrow> st_ret None
       | Some b \<Rightarrow> st_bind (st_lift (sub_byte bits bit_off (from_be b))) (\<lambda>v. st_ret (Some v)))
     else st_ret None)"

definition refcount_of ::
  "'b read_seek_ops \<Rightarrow> u64 list \<Rightarrow> u64 \<Rightarrow> u32 \<Rightarrow> u64 \<Rightarrow> ('b, qcow2_error, u64 option) op" where
  "refcount_of V refcount_table cluster_idx refcount_bits cs =
    st_bind (st_lift (mul_chk cs 8)) (\<lambda>block_bits.
    st_bind (st_lift (div_chk block_bits (ucast refcount_bits))) (\<lambda>refcounts_per_block.
    if refcounts_per_block = 0 then st_ret None else
    let table_idx = unat (cluster_idx div refcounts_per_block);
        block_idx = cluster_idx mod refcounts_per_block in
    (case get_at refcount_table table_idx of
       None \<Rightarrow> st_ret None
     | Some entry \<Rightarrow>
         st_bind (st_lift (sub_chk cs 1)) (\<lambda>low.
         let block_offset = entry AND NOT low in
         if block_offset = 0 then st_ret (Some 0) else
         st_bind (st_lift (mul_chk block_idx (ucast refcount_bits))) (\<lambda>bit_off.
         st_bind (st_lift (add_chk block_offset (bit_off div 8))) (\<lambda>byte_off.
         read_refcount V refcount_bits bit_off byte_off))))))"

section \<open>The scan\<close>

text \<open>
  The inner loop over the entries of one L2 table, with the two counters; the flag tells that the
  cap was hit (\<open>break 'outer\<close>).
\<close>

fun scan_l2 ::
  "'b read_seek_ops \<Rightarrow> u64 list \<Rightarrow> u32 \<Rightarrow> u64 \<Rightarrow> u64 list \<Rightarrow> u64 \<Rightarrow> u64
     \<Rightarrow> ('b, qcow2_error, u64 \<times> u64 \<times> bool) op" where
  "scan_l2 V rt bits cs [] allocated orphans = st_ret (allocated, orphans, False)"
| "scan_l2 V rt bits cs (l2_entry # l2) allocated orphans =
    (if l2_entry AND push_bit 62 1 \<noteq> 0 then scan_l2 V rt bits cs l2 allocated orphans
     else if l2_entry AND 1 \<noteq> 0 then scan_l2 V rt bits cs l2 allocated orphans
     else let host_offset = l2_entry AND 0x00fffffffffffe00 in
     if host_offset = 0 then scan_l2 V rt bits cs l2 allocated orphans else
     st_bind (st_lift (add_chk allocated 1)) (\<lambda>allocated.
     if MAX_CLUSTERS_SCANNED < allocated then st_ret (allocated, orphans, True) else
     st_bind (st_lift (div_chk host_offset cs)) (\<lambda>cluster_idx.
     st_bind (refcount_of V rt cluster_idx bits cs) (\<lambda>rc.
     st_bind (if rc = Some 0 then st_lift (add_chk orphans 1) else st_ret orphans) (\<lambda>orphans.
     scan_l2 V rt bits cs l2 allocated orphans)))))"

fun scan_l1 ::
  "'b read_seek_ops \<Rightarrow> u64 list \<Rightarrow> u32 \<Rightarrow> u64 \<Rightarrow> u64 list \<Rightarrow> u64 \<Rightarrow> u64
     \<Rightarrow> ('b, qcow2_error, u64 \<times> u64) op" where
  "scan_l1 V rt bits cs [] allocated orphans = st_ret (allocated, orphans)"
| "scan_l1 V rt bits cs (l1_entry # l1) allocated orphans =
    (let l2_offset = l1_entry AND 0x00fffffffffffe00 in
     if l2_offset = 0 then scan_l1 V rt bits cs l1 allocated orphans else
     st_bind (read_u64_table V l2_offset (unat (cs div 8))) (\<lambda>l2.
     st_bind (scan_l2 V rt bits cs l2 allocated orphans) (\<lambda>(allocated, orphans, stop).
     if stop then st_ret (allocated, orphans)
     else scan_l1 V rt bits cs l1 allocated orphans)))"

definition refcount_report_of ::
  "'b read_seek_ops \<Rightarrow> ('b, qcow2_error, refcount_report) op" where
  "refcount_report_of V =
    st_bind (st_map_err Io (dev_read V 104)) (\<lambda>hdr.
    if 104 < length hdr then st_panic else
    if length hdr < MIN_HEADER_SIZE then st_err FileTooSmall else
    if rc_be_u32 hdr 0 \<noteq> MAGIC then st_err BadMagic else
    let version = rc_be_u32 hdr 4 in
    if \<not> (2 \<le> version \<and> version \<le> 3) then st_err (UnsupportedVersion version) else
    let cluster_bits = rc_be_u32 hdr 20 in
    if \<not> (9 \<le> cluster_bits \<and> cluster_bits \<le> 20) then st_err (ClusterBitsOutOfRange cluster_bits)
    else
    st_bind (st_lift (shl_chk 1 cluster_bits)) (\<lambda>cs.
    let l1_size = unat (rc_be_u32 hdr 36);
        l1_table_offset = rc_be_u64 hdr 40;
        refcount_table_offset = rc_be_u64 hdr 48;
        refcount_table_clusters = rc_be_u32 hdr 56;
        refcount_order = (if version = 3 \<and> 100 \<le> length hdr then rc_be_u32 hdr 96 else 4);
        report = (\<lambda>allocated orphans.
          \<lparr>rr_refcount_order = refcount_order, rr_table_offset = refcount_table_offset,
           rr_table_clusters = refcount_table_clusters, rr_allocated_clusters = allocated,
           rr_orphan_clusters = orphans\<rparr>) in
    if 6 < refcount_order then st_ret (report 0 0) else
    st_bind (st_lift (shl_chk 1 refcount_order)) (\<lambda>refcount_bits.
    st_bind (st_lift (mul_chk (ucast refcount_table_clusters) cs)) (\<lambda>rt_bytes.
    let rt_entries = min (unat (rt_bytes div 8)) RC_MAX_L1_ENTRIES in
    st_bind (read_u64_table_checked V refcount_table_offset rt_entries) (\<lambda>refcount_table.
    let l1_entries = min l1_size RC_MAX_L1_ENTRIES in
    st_bind (read_u64_table V l1_table_offset l1_entries) (\<lambda>l1_table.
    st_bind (scan_l1 V refcount_table refcount_bits cs l1_table 0 0) (\<lambda>(allocated, orphans).
    st_ret (report allocated orphans))))))))"

definition refcount_report :: "'p file_system \<Rightarrow> 'p \<Rightarrow> (qcow2_error, refcount_report) outcome" where
  "refcount_report fs path =
     and_then (file_open fs path) (\<lambda>file. fst (refcount_report_of file_ops file))"

section \<open>The lookup without its overflow checks\<close>

text \<open>
  A geometry the report accepts: clusters of \<open>2 ^ cb\<close> bytes and refcounts of \<open>2 ^ ord\<close> bits.  A
  refcount block then holds \<open>2 ^ (cb + 3 - ord)\<close> refcounts.
\<close>

definition refcounts_per_block :: "nat \<Rightarrow> nat \<Rightarrow> nat" where
  "refcounts_per_block cb ord = 2 ^ (cb + 3 - ord)"

definition block_offset :: "nat \<Rightarrow> u64 \<Rightarrow> nat" where
  "block_offset cb entry = unat entry div 2 ^ cb * 2 ^ cb"

definition refcount_bit_off :: "nat \<Rightarrow> nat \<Rightarrow> nat \<Rightarrow> nat" where
  "refcount_bit_off cb ord idx = idx mod refcounts_per_block cb ord * 2 ^ ord"

lemma refcount_bit_off_bounds:
  assumes "9 \<le> cb" and "cb \<le> 20" and "ord \<le> 6"
  shows "refcount_bit_off cb ord idx + 2 ^ ord \<le> 2 ^ (cb + 3)"
    and "refcount_bit_off cb ord idx < 2 ^ 23"
    and "refcount_bit_off cb ord idx div 8 < 2 ^ cb"
proof -
  have m: "idx mod refcounts_per_block cb ord + 1 \<le> 2 ^ (cb + 3 - ord)"
    by (simp add: refcounts_per_block_def Suc_leI)
  have "refcount_bit_off cb ord idx + 2 ^ ord = (idx mod refcounts_per_block cb ord + 1) * 2 ^ ord"
    by (simp add: refcount_bit_off_def)
  also have "\<dots> \<le> 2 ^ (cb + 3 - ord) * 2 ^ ord" using m by (rule mult_le_mono1)
  also have "\<dots> = (2 :: nat) ^ (cb + 3)" using assms by (simp add: power_add [symmetric])
  finally show le: "refcount_bit_off cb ord idx + 2 ^ ord \<le> 2 ^ (cb + 3)" .
  then have lt: "refcount_bit_off cb ord idx < 2 ^ (cb + 3)"
    using zero_less_power [of "2 :: nat" ord] by linarith
  also have "(2 :: nat) ^ (cb + 3) \<le> 2 ^ 23" using assms by (intro power_increasing) auto
  finally show "refcount_bit_off cb ord idx < 2 ^ 23" .
  show "refcount_bit_off cb ord idx div 8 < 2 ^ cb"
    using lt by (simp add: power_add less_mult_imp_div_less)
qed

lemma block_offset_bound:
  assumes "cb \<le> 20" and "k < 2 ^ cb"
  shows "block_offset cb e + k < 2 ^ 64"
proof -
  have "unat e < 2 ^ 64" using unsigned_less [of e, where 'a = nat] by simp
  also have "(2 :: nat) ^ 64 = 2 ^ (64 - cb) * 2 ^ cb"
    using assms(1) by (simp add: power_add [symmetric])
  finally have "unat e div 2 ^ cb < 2 ^ (64 - cb)" by (rule less_mult_imp_div_less)
  then have "unat e div 2 ^ cb + 1 \<le> 2 ^ (64 - cb)" by simp
  then have "(unat e div 2 ^ cb + 1) * 2 ^ cb \<le> 2 ^ (64 - cb) * 2 ^ cb" by (rule mult_le_mono1)
  also have "\<dots> = (2 :: nat) ^ 64" using assms(1) by (simp add: power_add [symmetric])
  finally show ?thesis using assms(2) by (simp add: block_offset_def)
qed

lemma refcount_of_eq:
  assumes "9 \<le> cb" and "cb \<le> 20" and "ord \<le> 6"
  shows "refcount_of V rt idx (2 ^ ord) (2 ^ cb) =
    (case get_at rt (unat idx div refcounts_per_block cb ord) of
       None \<Rightarrow> st_ret None
     | Some e \<Rightarrow>
         if block_offset cb e = 0 then st_ret (Some 0)
         else read_refcount V (2 ^ ord) (of_nat (refcount_bit_off cb ord (unat idx)))
           (of_nat (block_offset cb e + refcount_bit_off cb ord (unat idx) div 8)))"
proof -
  define rpb :: u64 where "rpb = 2 ^ (cb + 3 - ord)"
  have u: "unat rpb = refcounts_per_block cb ord"
    using assms by (simp add: rpb_def unat_2_power refcounts_per_block_def)
  have rpb: "rpb \<noteq> 0" using u by (metis power_not_zero refcounts_per_block_def unat_0 zero_neq_numeral)
  have m: "mul_chk (2 ^ cb) 8 = Ok (2 ^ (cb + 3) :: u64)"
  proof -
    have "(2 :: nat) ^ cb * 8 = 2 ^ (cb + 3)" by (simp add: power_add)
    moreover have "(2 :: nat) ^ (cb + 3) < 2 ^ 64" using assms by (intro power_strict_increasing) auto
    ultimately show ?thesis using assms by (simp add: mul_chk_def unat_2_power power_add)
  qed
  have d: "div_chk (2 ^ (cb + 3)) (ucast (2 ^ ord :: u32)) = Ok rpb"
  proof -
    have "unat (2 ^ (cb + 3) div 2 ^ ord :: u64) = 2 ^ (cb + 3 - ord)"
      using assms by (simp add: unat_div unat_2_power power_diff)
    then have "2 ^ (cb + 3) div 2 ^ ord = rpb"
      using assms by (simp only: word_unat_eq_iff rpb_def) (simp add: unat_2_power)
    moreover have "(2 ^ ord :: u64) \<noteq> 0" using assms by (simp add: exp_eq_zero_iff)
    ultimately show ?thesis using assms by (simp add: div_chk_def ucast_2_power)
  qed
  have sub: "sub_chk (2 ^ cb) 1 = Ok (mask cb :: u64)" using assms by (intro sub_chk_2_power) simp
  have ti: "unat (idx div rpb) = unat idx div refcounts_per_block cb ord"
    and bi: "unat (idx mod rpb) = unat idx mod refcounts_per_block cb ord"
    by (simp_all add: unat_div unat_mod u)
  define bo where "bo = refcount_bit_off cb ord (unat idx)"
  note bo = refcount_bit_off_bounds [OF assms, of "unat idx", folded bo_def]
  have ubo: "unat (of_nat bo :: u64) = bo" using bo(2) by (simp only: unat_of_nat) simp
  have mb: "mul_chk (idx mod rpb) (ucast (2 ^ ord :: u32)) = Ok (of_nat bo)"
  proof -
    have p: "unat (idx mod rpb) * unat (ucast (2 ^ ord :: u32) :: u64) = bo"
      using assms by (simp add: bi ucast_2_power unat_2_power bo_def refcount_bit_off_def)
    then have "unat (idx mod rpb * ucast (2 ^ ord :: u32)) = bo"
      using bo(2) by (subst unat_times_no_overflow) simp_all
    then have "idx mod rpb * ucast (2 ^ ord :: u32) = of_nat bo"
      by (simp only: word_unat_eq_iff ubo)
    then show ?thesis using p bo(2) by (simp add: mul_chk_def)
  qed
  have ab: "add_chk (e AND NOT (mask cb)) (of_nat bo div 8) = Ok (of_nat (block_offset cb e + bo div 8))"
    for e :: u64
  proof -
    have lt: "block_offset cb e + bo div 8 < 2 ^ 64" using block_offset_bound [OF assms(2) bo(3)] .
    have u1: "unat (e AND NOT (mask cb)) = block_offset cb e"
      by (simp only: unat_and_not_mask block_offset_def)
    have u2: "unat (of_nat bo div 8 :: u64) = bo div 8" by (simp add: unat_div ubo)
    have "e AND NOT (mask cb) = of_nat (block_offset cb e)" by (simp flip: u1)
    moreover have "of_nat bo div 8 = (of_nat (bo div 8) :: u64)" by (simp flip: u2)
    ultimately show ?thesis using lt u1 u2 by (simp add: add_chk_def)
  qed
  have z: "e AND NOT (mask cb) = 0 \<longleftrightarrow> block_offset cb e = 0" for e :: u64
    by (metis unat_and_not_mask block_offset_def unat_eq_0)
  show ?thesis
    by (rule ext) (simp only: refcount_of_def m d sub st_bind_lift_Ok rpb if_False Let_def ti mb ab z
        bo_def [symmetric] split: option.split, simp add: st_simps mb ab)
qed
section \<open>A refcount as a field of bits\<close>

text \<open>
  The image as one number of \<open>8 * length img\<close> bits, most significant first: the field of \<open>n\<close> bits
  that starts at bit \<open>p\<close>.
\<close>

definition bit_field :: "u8 list \<Rightarrow> nat \<Rightarrow> nat \<Rightarrow> nat" where
  "bit_field img p n = be_nat img div 2 ^ (8 * length img - p - n) mod 2 ^ n"

lemma be_nat_less_bits: "be_nat bs < 2 ^ (8 * length bs)"
  using be_nat_less [of bs] by (simp add: power_mult)

lemma be_nat_append_bits: "be_nat (xs @ ys) = 2 ^ (8 * length ys) * be_nat xs + be_nat ys"
  by (simp add: be_nat_append power_mult)

text \<open>A field inside \<open>k\<close> bytes is the shifted and masked number of those bytes.\<close>

lemma bit_field_bytes:
  assumes "i + k \<le> length img" and "w + n \<le> 8 * k"
  shows "bit_field img (8 * i + w) n = be_nat (take k (drop i img)) div 2 ^ (8 * k - w - n) mod 2 ^ n"
proof -
  define A S B where "A = take i img" and "S = take k (drop i img)" and "B = drop k (drop i img)"
  have img: "img = A @ S @ B"
    by (simp only: A_def S_def B_def append_take_drop_id)
  have l: "length A = i" "length S = k" using assms(1) by (simp_all add: A_def S_def)
  define b sh where "b = 8 * length B" and "sh = 8 * k - w - n"
  have e: "8 * length img - (8 * i + w) - n = b + sh"
    using assms(2) l by (simp add: img b_def sh_def)
  have num: "be_nat img = 2 ^ b * (2 ^ (8 * k) * be_nat A + be_nat S) + be_nat B"
    by (simp add: img be_nat_append_bits b_def l algebra_simps power_add)
  have "be_nat B < 2 ^ b" by (simp add: b_def be_nat_less_bits)
  then have "be_nat img div 2 ^ b = 2 ^ (8 * k) * be_nat A + be_nat S"
    unfolding num by simp
  then have "be_nat img div 2 ^ (b + sh) = (2 ^ (8 * k) * be_nat A + be_nat S) div 2 ^ sh"
    by (simp add: power_add div_mult2_eq)
  also have "8 * k = (w + n) + sh" using assms(2) by (simp add: sh_def)
  also have "(2 ^ (w + n + sh) * be_nat A + be_nat S) div 2 ^ sh
      = 2 ^ n * (2 ^ w * be_nat A) + be_nat S div 2 ^ sh"
  proof -
    have "2 ^ (w + n + sh) * be_nat A + be_nat S = be_nat S + (2 ^ n * (2 ^ w * be_nat A)) * 2 ^ sh"
      by (simp add: power_add)
    moreover have "(be_nat S + (2 ^ n * (2 ^ w * be_nat A)) * 2 ^ sh) div 2 ^ sh
        = 2 ^ n * (2 ^ w * be_nat A) + be_nat S div 2 ^ sh"
      by (rule div_mult_self1) simp
    ultimately show ?thesis by (simp only:)
  qed
  finally show ?thesis
    unfolding bit_field_def e by (simp add: S_def sh_def)
qed

lemma bit_field_whole:
  assumes "i + k \<le> length img"
  shows "bit_field img (8 * i) (8 * k) = be_nat (take k (drop i img))"
  using bit_field_bytes [OF assms, of 0 "8 * k"] be_nat_less_bits [of "take k (drop i img)"] assms
  by simp

text \<open>The refcount of a cluster, from the refcount table and the bytes of the image.\<close>

definition refcount_value :: "nat \<Rightarrow> nat \<Rightarrow> u64 list \<Rightarrow> u8 list \<Rightarrow> nat \<Rightarrow> nat option" where
  "refcount_value cb ord rt img idx =
    (case get_at rt (idx div refcounts_per_block cb ord) of
       None \<Rightarrow> None
     | Some e \<Rightarrow>
         let p = 8 * block_offset cb e + refcount_bit_off cb ord idx in
         if block_offset cb e = 0 then Some 0
         else if p + 2 ^ ord \<le> 8 * length img then Some (bit_field img p (2 ^ ord))
         else None)"

lemma ord_cases:
  assumes "ord \<le> 6"
  obtains "ord = 0" | "ord = 1" | "ord = 2" | "ord = 3" | "ord = 4" | "ord = 5" | "ord = (6 :: nat)"
  using assms by force

lemma sub_byte_eq:
  assumes "ord \<le> 2" and "w + 2 ^ ord \<le> 8" and "unat bit_off mod 8 = w"
  shows "sub_byte (2 ^ ord) bit_off b = Ok (of_nat (unat b div 2 ^ (8 - w - 2 ^ ord) mod 2 ^ 2 ^ ord))"
proof -
  let ?n = "2 ^ ord :: nat"
  have n: "0 < ?n" "?n \<le> 8" "w \<le> 8" using assms by simp_all
  have bits: "(2 ^ ord :: u32) = of_nat ?n" by simp
  have within: "ucast (bit_off mod 8) = (of_nat w :: u32)"
    using assms(3) by (simp add: word_unat_eq_iff unat_of_nat unsigned_ucast_eq unat_mod take_bit_eq_mod)
  have c1: "shl_chk 1 (of_nat ?n) = Ok (2 ^ ?n :: u64)" by (rule shl_chk_of_nat) (use n in linarith)
  have c2: "sub_chk (2 ^ ?n) 1 = Ok (mask ?n :: u64)" by (rule sub_chk_2_power) (use n in linarith)
  have c3: "sub_chk 8 (of_nat w) = Ok (of_nat (8 - w) :: u32)" using sub_chk_of_nat [of w 8] n by simp
  have c4: "sub_chk (of_nat (8 - w)) (of_nat ?n) = Ok (of_nat (8 - w - ?n) :: u32)"
    by (rule sub_chk_of_nat) (use assms(2) in linarith)+
  have c5: "shr_chk (ucast b) (of_nat (8 - w - ?n)) = Ok (drop_bit (8 - w - ?n) (ucast b) :: u64)"
    by (rule shr_chk_of_nat) linarith
  note c = c1 c2 c3 c4 c5
  have "unat (ucast b :: u64) = unat b"
    using unat_u8_less [of b] by (simp add: unsigned_ucast_eq take_bit_nat_eq_self)
  then show ?thesis
    unfolding sub_byte_def bits within
    by (simp only: Let_def c and_then.simps and_mask_of_nat unat_drop_bit_u64)
qed

lemma refcount_value_bound:
  assumes "ord \<le> 6" and "refcount_value cb ord rt img idx = Some v"
  shows "v < 2 ^ 64"
proof -
  have "(2 :: nat) ^ ord \<le> 2 ^ 6" using assms(1) by (intro power_increasing) auto
  then have "(2 :: nat) ^ 2 ^ ord \<le> 2 ^ 64" by (intro power_increasing) auto
  moreover have "bit_field img p n < 2 ^ n" for p n by (simp add: bit_field_def)
  ultimately have "bit_field img p (2 ^ ord) < 2 ^ 64" for p by (rule less_le_trans [rotated])
  then show ?thesis
    using assms(2) by (auto simp: refcount_value_def Let_def split: option.splits if_splits)
qed

section \<open>The scan, specified\<close>

text \<open>A table of the image; outside the image, and at offset 0, there is none.\<close>

definition table_at :: "u8 list \<Rightarrow> nat \<Rightarrow> nat \<Rightarrow> u64 list" where
  "table_at img off n =
     (if n = 0 \<or> off = 0 \<or> length img < off + 8 * n then []
      else be_u64_table (take (8 * n) (drop off img)))"

text \<open>A table away from a patch, and one whose first entry is patched.\<close>

lemma table_at_put_other:
  assumes "a + 8 * n \<le> off \<or> off + length bs \<le> a" and "off + length bs \<le> length xs"
  shows "table_at (put xs off bs) a n = table_at xs a n"
  using region_put_other [OF assms] assms(2) by (simp add: table_at_def)

lemma table_at_put_first:
  assumes "table_at xs off (Suc n) = e # es"
  shows "table_at (put xs off (to_be 8 w)) off (Suc n) = w # es"
proof -
  from assms have f: "off \<noteq> 0" "off + 8 * Suc n \<le> length xs"
    and t: "be_u64_table (take (8 * Suc n) (drop off xs)) = e # es"
    by (auto simp: table_at_def split: if_splits)
  have "take (8 * Suc n) (drop off (put xs off (to_be 8 w))) = to_be 8 w @ take (8 * n) (drop (off + 8) xs)"
    using f(2) by (simp add: put_def)
  moreover have "be_u64_table (take (8 * n) (drop (off + 8) xs)) = es"
  proof -
    have "drop 8 (take (8 * Suc n) (drop off xs)) = take (8 * n) (drop (off + 8) xs)"
      by (simp add: drop_take ac_simps)
    moreover have "8 \<le> length (take (8 * Suc n) (drop off xs))" using f(2) by simp
    ultimately show ?thesis using t be_u64_table_step [of "take (8 * Suc n) (drop off xs)"] by simp
  qed
  ultimately show ?thesis using f by (simp add: table_at_def be_u64_table_step)
qed

text \<open>The offset field of a table entry: bits 9 to 55.\<close>

definition host_field :: "u64 \<Rightarrow> nat" where
  "host_field e = unat e mod 2 ^ 56 div 2 ^ 9 * 2 ^ 9"

text \<open>The data cluster an L2 entry allocates: a standard cluster, neither compressed nor zero.\<close>

definition l2_host :: "u64 \<Rightarrow> nat option" where
  "l2_host e = (if bit e 62 \<or> odd (unat e) \<or> host_field e = 0 then None else Some (host_field e))"

definition reachable_hosts :: "nat \<Rightarrow> u8 list \<Rightarrow> u64 list \<Rightarrow> nat list" where
  "reachable_hosts cb img l1 =
     concat (map (\<lambda>e. List.map_filter l2_host (table_at img (host_field e) (2 ^ cb div 8))) l1)"

lemma l2_host_zeros [simp]: "List.map_filter l2_host (replicate n 0) = []"
proof -
  have "l2_host 0 = None" by (simp add: l2_host_def host_field_def)
  then show ?thesis by (induction n) (simp_all add: List.map_filter_simps)
qed

definition orphan_count :: "nat \<Rightarrow> nat \<Rightarrow> u64 list \<Rightarrow> u8 list \<Rightarrow> nat list \<Rightarrow> nat" where
  "orphan_count cb ord rt img hosts =
     length (filter (\<lambda>h. refcount_value cb ord rt img (h div 2 ^ cb) = Some 0) hosts)"

definition scan_cap :: nat where
  "scan_cap = 2 ^ 24"

lemma orphan_count_simps [simp]:
  "orphan_count cb ord rt img [] = 0"
  "orphan_count cb ord rt img (h # hs) =
     (if refcount_value cb ord rt img (h div 2 ^ cb) = Some 0 then 1 else 0)
     + orphan_count cb ord rt img hs"
  "orphan_count cb ord rt img (hs @ hs') =
     orphan_count cb ord rt img hs + orphan_count cb ord rt img hs'"
  by (simp_all add: orphan_count_def)

lemma orphan_count_le: "orphan_count cb ord rt img hs \<le> length hs"
  by (simp add: orphan_count_def)

lemma unat_host_field: "unat (e AND 0x00fffffffffffe00) = host_field e" for e :: u64
proof -
  have "(0x00fffffffffffe00 :: u64) = mask 56 AND NOT (mask 9)" by (simp add: mask_eq_exp_minus_1)
  then have "e AND 0x00fffffffffffe00 = (e AND mask 56) AND NOT (mask 9)"
    by (simp only: and.assoc)
  then show ?thesis by (simp only: unat_and_not_mask unat_and_mask host_field_def)
qed

lemma host_field_0: "e AND 0x00fffffffffffe00 = 0 \<longleftrightarrow> host_field e = 0" for e :: u64
  by (metis unat_host_field unat_eq_0)

lemma host_field_less: "host_field e < 2 ^ 56"
proof -
  have "host_field e \<le> unat e mod 2 ^ 56" unfolding host_field_def by (rule div_times_less_eq_dividend)
  also have "\<dots> < 2 ^ 56" by simp
  finally show ?thesis .
qed

lemma counter: "n \<le> scan_cap + 1 \<Longrightarrow> unat (of_nat n :: u64) = n"
  by (simp add: scan_cap_def unat_of_nat)

lemma add_counter: "n \<le> scan_cap \<Longrightarrow> add_chk (of_nat n) 1 = Ok (of_nat (n + 1) :: u64)"
proof -
  assume n: "n \<le> scan_cap"
  then have u: "unat (of_nat n :: u64) = n" using counter [of n] by simp
  show ?thesis
    unfolding add_chk_def u of_nat_add of_nat_1 using n by (simp add: scan_cap_def)
qed

lemma over_cap: "n \<le> scan_cap + 1 \<Longrightarrow> MAX_CLUSTERS_SCANNED < of_nat n \<longleftrightarrow> scan_cap < n"
  using counter [of n] by (simp add: word_less_nat_alt MAX_CLUSTERS_SCANNED_def scan_cap_def)

context byte_source
begin

lemma rc_read_at_spec:
  assumes b: "inv b" and n: "0 < n"
  shows "\<exists>b'. rc_read_at V off n b =
      (Ok (if unat off + n \<le> length (content b) then Some (take n (drop (unat off) (content b)))
           else None), b') \<and> inv b' \<and> content b' = content b"
proof -
  have eq: "rc_read_at V off n b = st_ok (read_exact_at V off n) b"
    by (auto simp: rc_read_at_def read_exact_at_def st_bind_def st_ok_def st_ret_apply
        split: prod.split outcome.split)
  from read_exact_at_spec [OF b n, of off] obtain r b' where
    "read_exact_at V off n b = (r, b')" "inv b'" "content b' = content b"
    "if unat off + n \<le> length (content b) then r = Ok (take n (drop (unat off) (content b)))
     else \<exists>e. r = Err e"
    by blast
  then show ?thesis unfolding eq by (auto simp: st_ok_def split: if_splits)
qed

lemma rc_bytes:
  assumes b: "inv b" and i: "unat off = i" and m: "LENGTH('a::len) = m" "m = 8 * k"
    and k: "0 < k" "m \<le> 64"
  shows "\<exists>b'. st_bind (rc_read_at V off k) (\<lambda>b. st_ret (map_option (\<lambda>b. ucast (from_be b :: 'a word)) b)) b =
      (Ok (if 8 * i + m \<le> 8 * length (content b)
           then Some (of_nat (bit_field (content b) (8 * i) m) :: u64) else None), b') \<and>
    inv b' \<and> content b' = content b"
proof -
  have u: "ucast (from_be bs :: 'a word) = (of_nat (be_nat bs) :: u64)" if "length bs = k" for bs
  proof -
    have "be_nat bs < 2 ^ (8 * k)" using be_nat_less_bits [of bs] that by simp
    moreover have "(2 :: nat) ^ (8 * k) \<le> 2 ^ 64" using k(2) m(2) by (intro power_increasing) auto
    moreover have "unat (from_be bs :: 'a word) = be_nat bs" using that m by (intro unat_from_be) simp
    ultimately show ?thesis by (simp add: word_unat_eq_iff unsigned_ucast_eq unat_of_nat take_bit_eq_mod)
  qed
  from rc_read_at_spec [OF b k(1), of off] i obtain b' where
    e: "rc_read_at V off k b = (Ok (if i + k \<le> length (content b)
          then Some (take k (drop i (content b))) else None), b')"
    and b': "inv b'" "content b' = content b"
    by auto
  show ?thesis
  proof (cases "i + k \<le> length (content b)")
    case True
    with u [of "take k (drop i (content b))"] e b' bit_field_whole [OF True] show ?thesis
      by (simp add: st_bind_def st_ret_apply m(2))
  next
    case False
    with e b' show ?thesis by (simp add: st_bind_def st_ret_apply m(2))
  qed
qed

lemma read_refcount_spec:
  assumes b: "inv b" and ord: "ord \<le> 6" and dvd: "2 ^ ord dvd bo" and bo: "bo < 2 ^ 64"
    and lim: "blk + bo div 8 < 2 ^ 64"
  shows "\<exists>b'. read_refcount V (2 ^ ord) (of_nat bo) (of_nat (blk + bo div 8)) b =
      (Ok (if 8 * blk + bo + 2 ^ ord \<le> 8 * length (content b)
           then Some (of_nat (bit_field (content b) (8 * blk + bo) (2 ^ ord))) else None), b') \<and>
    inv b' \<and> content b' = content b"
proof -
  define i w where "i = blk + bo div 8" and "w = bo mod 8"
  define off :: u64 where "off = of_nat i"
  have u: "unat off = i" using lim by (simp only: off_def i_def unat_of_nat) simp
  have p: "8 * blk + bo = 8 * i + w" by (simp add: i_def w_def)
  have ub: "unat (of_nat bo :: u64) = bo" using bo by (simp only: unat_of_nat) simp
  show ?thesis
  proof (cases "ord \<le> 2")
    case True
    have w: "w + 2 ^ ord \<le> 8"
    proof -
      from True consider "ord = 0" | "ord = 1" | "ord = 2" by force
      then show ?thesis
        using dvd by cases (simp_all add: w_def, presburger+)
    qed
    have c: "8 * i + w + 2 ^ ord \<le> 8 * length (content b) \<longleftrightarrow> i + 1 \<le> length (content b)"
    proof -
      have "0 < (2 :: nat) ^ ord" by simp
      with w show ?thesis by linarith
    qed
    from rc_read_at_spec [OF b, of 1 off] u obtain b' where
      e: "rc_read_at V off 1 b = (Ok (if i + 1 \<le> length (content b)
            then Some (take 1 (drop i (content b))) else None), b')"
      and b': "inv b'" "content b' = content b"
      by auto
    have bits: "(2 ^ ord :: u32) \<noteq> 8 \<and> (2 ^ ord :: u32) \<noteq> 16 \<and> (2 ^ ord :: u32) \<noteq> 32 \<and>
        (2 ^ ord :: u32) \<noteq> 64 \<and> (2 ^ ord = (1 :: u32) \<or> 2 ^ ord = (2 :: u32) \<or> 2 ^ ord = (4 :: u32))"
    proof -
      from True consider "ord = 0" | "ord = 1" | "ord = 2" by force
      then show ?thesis by cases simp_all
    qed
    show ?thesis
    proof (cases "i + 1 \<le> length (content b)")
      case False
      with e b' bits c show ?thesis
        by (simp add: read_refcount_def p c st_bind_def st_ret_apply flip: i_def off_def)
    next
      case t: True
      have v: "unat (from_be (take 1 (drop i (content b))) :: u8) = be_nat (take 1 (drop i (content b)))"
        by (rule unat_from_be) simp
      have m: "unat (of_nat bo :: u64) mod 8 = w" by (simp only: ub w_def)
      have "sub_byte (2 ^ ord) (of_nat bo) (from_be (take 1 (drop i (content b)))) =
          (Ok (of_nat (bit_field (content b) (8 * i + w) (2 ^ ord))) :: (qcow2_error, u64) outcome)"
        using bit_field_bytes [OF t, of w "2 ^ ord"] w v unfolding sub_byte_eq [OF True w m] by simp
      with e b' bits c t show ?thesis
        by (simp add: read_refcount_def p c st_bind_def st_ret_apply st_lift_apply flip: i_def off_def)
    qed
  next
    case False
    have w0: "w = 0"
    proof -
      have "(2 :: nat) ^ 3 dvd 2 ^ ord" using False by (intro le_imp_power_dvd) simp
      then have "8 dvd bo" using dvd by (simp add: dvd_trans)
      then show ?thesis by (simp add: w_def)
    qed
    have p0: "8 * blk + bo = 8 * i" using p w0 by simp
    from False ord consider "ord = 3" | "ord = 4" | "ord = 5" | "ord = 6" by force
    then show ?thesis
      unfolding p0 i_def [symmetric] off_def [symmetric]
    proof cases
      case 1
      have e: "(2 :: nat) ^ ord = 8" "(2 ^ ord :: u32) = 8" by (simp_all add: 1)
      show "\<exists>b'. read_refcount V (2 ^ ord) (of_nat bo) off b =
          (Ok (if 8 * i + 2 ^ ord \<le> 8 * length (content b)
               then Some (of_nat (bit_field (content b) (8 * i) (2 ^ ord))) else None), b') \<and>
        inv b' \<and> content b' = content b"
      proof -
        have r: "read_refcount V 8 bo' off = st_bind (rc_read_at V off 1)
            (\<lambda>b. st_ret (map_option (\<lambda>b. ucast (from_be b :: u8)) b))" for bo'
          by (simp add: read_refcount_def)
        show ?thesis
          unfolding e r by (rule rc_bytes [where 'a = 8, OF b u, of 8 1]) simp_all
      qed
    next
      case 2
      have e: "(2 :: nat) ^ ord = 16" "(2 ^ ord :: u32) = 16" by (simp_all add: 2)
      show "\<exists>b'. read_refcount V (2 ^ ord) (of_nat bo) off b =
          (Ok (if 8 * i + 2 ^ ord \<le> 8 * length (content b)
               then Some (of_nat (bit_field (content b) (8 * i) (2 ^ ord))) else None), b') \<and>
        inv b' \<and> content b' = content b"
      proof -
        have r: "read_refcount V 16 bo' off = st_bind (rc_read_at V off 2)
            (\<lambda>b. st_ret (map_option (\<lambda>b. ucast (from_be b :: u16)) b))" for bo'
          by (simp add: read_refcount_def)
        show ?thesis
          unfolding e r by (rule rc_bytes [where 'a = 16, OF b u, of 16 2]) simp_all
      qed
    next
      case 3
      have e: "(2 :: nat) ^ ord = 32" "(2 ^ ord :: u32) = 32" by (simp_all add: 3)
      show "\<exists>b'. read_refcount V (2 ^ ord) (of_nat bo) off b =
          (Ok (if 8 * i + 2 ^ ord \<le> 8 * length (content b)
               then Some (of_nat (bit_field (content b) (8 * i) (2 ^ ord))) else None), b') \<and>
        inv b' \<and> content b' = content b"
      proof -
        have r: "read_refcount V 32 bo' off = st_bind (rc_read_at V off 4)
            (\<lambda>b. st_ret (map_option (\<lambda>b. ucast (from_be b :: u32)) b))" for bo'
          by (simp add: read_refcount_def)
        show ?thesis
          unfolding e r by (rule rc_bytes [where 'a = 32, OF b u, of 32 4]) simp_all
      qed
    next
      case 4
      have e: "(2 :: nat) ^ ord = 64" "(2 ^ ord :: u32) = 64" by (simp_all add: 4)
      show "\<exists>b'. read_refcount V (2 ^ ord) (of_nat bo) off b =
          (Ok (if 8 * i + 2 ^ ord \<le> 8 * length (content b)
               then Some (of_nat (bit_field (content b) (8 * i) (2 ^ ord))) else None), b') \<and>
        inv b' \<and> content b' = content b"
      proof -
        have r: "read_refcount V 64 bo' off = st_bind (rc_read_at V off 8)
            (\<lambda>b. st_ret (map_option from_be b))" for bo'
          by (simp add: read_refcount_def)
        show ?thesis
          unfolding e r by (rule rc_bytes [where 'a = 64, OF b u, of 64 8, unfolded ucast_id]) simp_all
      qed
    qed
  qed
qed

lemma refcount_of_spec:
  assumes b: "inv b" and g: "9 \<le> cb" "cb \<le> 20" "ord \<le> 6"
  shows "\<exists>b'. refcount_of V rt idx (2 ^ ord) (2 ^ cb) b =
      (Ok (map_option of_nat (refcount_value cb ord rt (content b) (unat idx))), b') \<and>
    inv b' \<and> content b' = content b"
proof (cases "get_at rt (unat idx div refcounts_per_block cb ord)")
  case None
  with b show ?thesis by (simp add: refcount_of_eq [OF g] refcount_value_def st_ret_apply)
next
  case (Some e)
  let ?bo = "refcount_bit_off cb ord (unat idx)"
  note bo = refcount_bit_off_bounds [OF g, of "unat idx"]
  show ?thesis
  proof (cases "block_offset cb e = 0")
    case True
    with Some b show ?thesis by (simp add: refcount_of_eq [OF g] refcount_value_def st_ret_apply)
  next
    case False
    have "2 ^ ord dvd ?bo" by (simp add: refcount_bit_off_def)
    moreover have "?bo < 2 ^ 64" using bo(2) by simp
    moreover have "block_offset cb e + ?bo div 8 < 2 ^ 64" using block_offset_bound [OF g(2) bo(3)] .
    ultimately show ?thesis
      using read_refcount_spec [OF b g(3), of ?bo "block_offset cb e"] Some False
      by (auto simp: refcount_of_eq [OF g] refcount_value_def Let_def split: if_splits)
  qed
qed

lemma read_u64_table_checked_spec:
  assumes b: "inv b" and n: "n \<le> 2 ^ 20"
  shows "\<exists>x b'. read_u64_table_checked V off n b = (x, b') \<and> inv b' \<and> content b' = content b \<and>
    (if n = 0 \<or> off = 0 \<or> unat off + 8 * n \<le> length (content b)
     then x = Ok (table_at (content b) (unat off) n) else \<exists>e. x = Err (Io e))"
proof (cases "n = 0 \<or> off = 0")
  case True
  with b show ?thesis by (auto simp: read_u64_table_checked_def table_at_def st_ret_apply)
next
  case False
  then have n8: "0 < n * 8" "\<not> usize_limit \<le> n * 8" and o: "unat off \<noteq> 0"
    using n by (auto simp: usize_limit_def unat_eq_0)
  from read_exact_at_spec [OF b n8(1), of off] obtain r b' where
    "read_exact_at V off (n * 8) b = (r, b')" and b': "inv b'" "content b' = content b"
    and r: "if unat off + n * 8 \<le> length (content b)
      then r = Ok (take (n * 8) (drop (unat off) (content b))) else \<exists>e. r = Err e"
    by blast
  then have "read_u64_table_checked V off n b =
      (case r of Ok buf \<Rightarrow> Ok (be_u64_table buf) | Err e \<Rightarrow> Err (Io e) | Panic \<Rightarrow> Panic, b')"
    using False n8 by (auto simp: read_u64_table_checked_def read_exact_at_def st_bind_def
        st_map_err_def st_ret_apply split: prod.splits outcome.splits)
  with b' r False o show ?thesis by (auto simp: table_at_def mult.commute split: if_splits)
qed

lemma read_u64_table_spec:
  assumes b: "inv b" and n: "n \<le> 2 ^ 20"
  shows "\<exists>b'. read_u64_table V off n b = (Ok (table_at (content b) (unat off) n), b') \<and>
    inv b' \<and> content b' = content b"
proof -
  from read_u64_table_checked_spec [OF assms, of off] obtain x b' where
    e: "read_u64_table_checked V off n b = (x, b')" and b': "inv b'" "content b' = content b"
    and x: "if n = 0 \<or> off = 0 \<or> unat off + 8 * n \<le> length (content b)
     then x = Ok (table_at (content b) (unat off) n) else \<exists>e. x = Err (Io e)"
    by blast
  from x consider "x = Ok (table_at (content b) (unat off) n)"
    | e where "x = Err (Io e)" "table_at (content b) (unat off) n = []"
    by (auto simp: table_at_def split: if_splits)
  then show ?thesis
    using e b' by cases (auto simp: read_u64_table_def st_bind_def st_ok_def st_ret_apply)
qed

lemma scan_l2_spec:
  assumes "inv b" and g: "9 \<le> cb" "cb \<le> 20" "ord \<le> 6" and "a \<le> scan_cap" and "o' \<le> a"
  shows "\<exists>b'. scan_l2 V rt (2 ^ ord) (2 ^ cb) es (of_nat a) (of_nat o') b =
    (let hs = List.map_filter l2_host es in
     Ok (of_nat (min (a + length hs) (scan_cap + 1)),
         of_nat (o' + orphan_count cb ord rt (content b) (take (scan_cap - a) hs)),
         scan_cap < a + length hs), b') \<and> inv b' \<and> content b' = content b"
  using assms(1,5,6)
proof (induction es arbitrary: b a o')
  case Nil
  then show ?case by (auto simp: st_ret_apply map_filter_simps min_def)
next
  case (Cons e es)
  show ?case
  proof (cases "l2_host e")
    case None
    then have "scan_l2 V rt (2 ^ ord) (2 ^ cb) (e # es) (of_nat a) (of_nat o') =
        scan_l2 V rt (2 ^ ord) (2 ^ cb) es (of_nat a) (of_nat o')"
      by (simp only: scan_l2.simps Let_def and_bit_62 and_1_odd host_field_0)
         (auto simp: l2_host_def split: if_splits)
    with Cons.IH [OF Cons.prems] None show ?thesis by (simp add: map_filter_simps)
  next
    case (Some h)
    then have h: "h = host_field e" "h \<noteq> 0" and e: "\<not> bit e 62" "even (unat e)"
      by (auto simp: l2_host_def split: if_splits)
    let ?idx = "(e AND 0x00fffffffffffe00) div 2 ^ cb"
    have idx: "unat ?idx = h div 2 ^ cb"
      using g by (simp add: unat_div unat_host_field unat_2_power h)
    have d: "div_chk (e AND 0x00fffffffffffe00) (2 ^ cb) = Ok ?idx"
      using g by (simp add: div_chk_def exp_eq_zero_iff)
    note a1 = add_counter [OF Cons.prems(2)]
    have run: "scan_l2 V rt (2 ^ ord) (2 ^ cb) (e # es) (of_nat a) (of_nat o') b =
        (if scan_cap < a + 1 then st_ret (of_nat (a + 1), of_nat o', True) else
         st_bind (refcount_of V rt ?idx (2 ^ ord) (2 ^ cb)) (\<lambda>rc.
         st_bind (if rc = Some 0 then st_lift (add_chk (of_nat o') 1) else st_ret (of_nat o'))
         (\<lambda>o''. scan_l2 V rt (2 ^ ord) (2 ^ cb) es (of_nat (a + 1)) o''))) b"
      using Cons.prems(2) h e by (simp only: scan_l2.simps Let_def and_bit_62 and_1_odd host_field_0
          a1 d st_bind_lift_Ok if_False over_cap simp_thms add_le_mono1)
         (simp add: st_bind_lift_Ok d)
    show ?thesis
    proof (cases "a = scan_cap")
      case True
      with run Cons.prems Some show ?thesis by (simp add: map_filter_simps st_ret_apply)
    next
      case False
      with Cons.prems(2) have a: "a + 1 \<le> scan_cap" "scan_cap - a = Suc (scan_cap - (a + 1))" by auto
      from refcount_of_spec [OF Cons.prems(1) g, of rt ?idx] obtain b1 where
        r: "refcount_of V rt ?idx (2 ^ ord) (2 ^ cb) b =
          (Ok (map_option of_nat (refcount_value cb ord rt (content b) (h div 2 ^ cb))), b1)"
        and b1: "inv b1" "content b1 = content b"
        unfolding idx by blast
      let ?zero = "refcount_value cb ord rt (content b) (h div 2 ^ cb) = Some 0"
      have z: "map_option of_nat (refcount_value cb ord rt (content b) (h div 2 ^ cb)) = Some (0 :: u64)
          \<longleftrightarrow> ?zero"
      proof (cases "refcount_value cb ord rt (content b) (h div 2 ^ cb)")
        case (Some v)
        from refcount_value_bound [OF g(3) this] have u: "unat (of_nat v :: u64) = v"
          by (simp only: unat_of_nat) simp
        have "(of_nat v :: u64) = 0 \<longleftrightarrow> v = 0" unfolding unat_eq_0 [symmetric] u ..
        then show ?thesis unfolding Some option.map option.inject .
      qed simp
      define o1 where "o1 = o' + (if ?zero then 1 else 0)"
      have "o' \<le> scan_cap" using Cons.prems(2,3) by simp
      note oc = add_counter [OF this]
      have run2: "scan_l2 V rt (2 ^ ord) (2 ^ cb) (e # es) (of_nat a) (of_nat o') b =
          scan_l2 V rt (2 ^ ord) (2 ^ cb) es (of_nat (a + 1)) (of_nat o1) b1"
        using a r z unfolding run o1_def by (simp add: st_bind_def st_ret_apply st_lift_apply oc add.commute [of _ 1])
      have "o1 \<le> a + 1" using Cons.prems(3) by (simp add: o1_def)
      from Cons.IH [OF b1(1) a(1) this] show ?thesis
        unfolding run2 using Some b1(2) a
        by (simp add: map_filter_simps Let_def o1_def ac_simps)
    qed
  qed
qed

end
context byte_source
begin

lemma scan_l1_spec:
  assumes "inv b" and g: "9 \<le> cb" "cb \<le> 20" "ord \<le> 6" and "a \<le> scan_cap" and "o' \<le> a"
  shows "\<exists>b'. scan_l1 V rt (2 ^ ord) (2 ^ cb) l1 (of_nat a) (of_nat o') b =
    (let hs = reachable_hosts cb (content b) l1 in
     Ok (of_nat (min (a + length hs) (scan_cap + 1)),
         of_nat (o' + orphan_count cb ord rt (content b) (take (scan_cap - a) hs))), b') \<and>
     inv b' \<and> content b' = content b"
  using assms(1,5,6)
proof (induction l1 arbitrary: b a o')
  case Nil
  then show ?case by (auto simp: reachable_hosts_def st_ret_apply min_def)
next
  case (Cons e l1)
  define off where "off = e AND 0x00fffffffffffe00"
  have uo: "unat off = host_field e" unfolding off_def by (rule unat_host_field)
  define es where "es = table_at (content b) (host_field e) (2 ^ cb div 8)"
  define hs1 where "hs1 = List.map_filter l2_host es"
  define hs2 where "hs2 = reachable_hosts cb (content b) l1"
  have hs: "reachable_hosts cb (content b) (e # l1) = hs1 @ hs2"
    by (simp add: reachable_hosts_def hs1_def hs2_def es_def)
  show ?case
  proof (cases "host_field e = 0")
    case True
    then have "off = 0" using uo unat_eq_0 [of off] by simp
    moreover have "hs1 = []" by (simp add: hs1_def es_def table_at_def True)
    ultimately show ?thesis
      using Cons.IH [OF Cons.prems] unfolding hs by (simp add: off_def Let_def hs2_def)
  next
    case False
    then have off: "off \<noteq> 0" using uo by auto
    have n: "unat (2 ^ cb div 8 :: u64) = 2 ^ cb div 8" using g by (simp add: unat_div unat_2_power)
    have "(2 :: nat) ^ cb \<le> 2 ^ 20" using g by (intro power_increasing) auto
    then have le: "(2 :: nat) ^ cb div 8 \<le> 2 ^ 20" by (rule order_trans [OF div_le_dividend])
    from read_u64_table_spec [OF Cons.prems(1) le, of off] obtain b1 where
      e1: "read_u64_table V off (2 ^ cb div 8) b = (Ok es, b1)" and b1: "inv b1" "content b1 = content b"
      unfolding uo es_def by blast
    from scan_l2_spec [OF b1(1) g Cons.prems(2,3), of rt es] obtain b2 where
      e2: "scan_l2 V rt (2 ^ ord) (2 ^ cb) es (of_nat a) (of_nat o') b1 =
        (Ok (of_nat (min (a + length hs1) (scan_cap + 1)),
           of_nat (o' + orphan_count cb ord rt (content b) (take (scan_cap - a) hs1)),
           scan_cap < a + length hs1), b2)"
      and b2: "inv b2" "content b2 = content b"
      unfolding Let_def b1(2) hs1_def [symmetric] by blast
    have run: "scan_l1 V rt (2 ^ ord) (2 ^ cb) (e # l1) (of_nat a) (of_nat o') b =
        (if scan_cap < a + length hs1
         then st_ret (of_nat (min (a + length hs1) (scan_cap + 1)),
           of_nat (o' + orphan_count cb ord rt (content b) (take (scan_cap - a) hs1)))
         else scan_l1 V rt (2 ^ ord) (2 ^ cb) l1 (of_nat (min (a + length hs1) (scan_cap + 1)))
           (of_nat (o' + orphan_count cb ord rt (content b) (take (scan_cap - a) hs1)))) b2"
      using off e1 e2 by (simp add: off_def [symmetric] n st_bind_def)
    show ?thesis
    proof (cases "scan_cap < a + length hs1")
      case True
      with b2 show ?thesis unfolding run hs by (simp add: st_ret_apply Let_def)
    next
      case False
      then have a1: "a + length hs1 \<le> scan_cap" by simp
      have "orphan_count cb ord rt (content b) hs1 \<le> length hs1" by (rule orphan_count_le)
      then have o1: "o' + orphan_count cb ord rt (content b) hs1 \<le> a + length hs1"
        using Cons.prems(3) by simp
      have m: "min (a + length hs1) (scan_cap + 1) = a + length hs1"
        and t: "take (scan_cap - a) hs1 = hs1" using a1 by simp_all
      from Cons.IH [OF b2(1) a1 o1] False a1 b2(2) show ?thesis
        unfolding run hs m t by (simp add: hs2_def Let_def ac_simps)
    qed
  qed
qed

end

section \<open>The scan never panics, whatever the file does\<close>

text \<open>What the counters satisfy at every point of the scan.\<close>

definition counters_ok :: "u64 \<Rightarrow> u64 \<Rightarrow> bool" where
  "counters_ok a n \<longleftrightarrow> n \<le> a \<and> unat a \<le> scan_cap + 1"

lemma rc_geometry:
  fixes cluster_bits order clusters :: u32
  assumes "9 \<le> cluster_bits" and "cluster_bits \<le> 20" and "\<not> 6 < order"
  defines "cb \<equiv> unat cluster_bits" and "ord \<equiv> unat order"
  shows "9 \<le> cb" and "cb \<le> 20" and "ord \<le> 6"
    and "shl_chk 1 cluster_bits = Ok (2 ^ cb :: u64)"
    and "shl_chk 1 order = Ok (2 ^ ord :: u32)"
    and "mul_chk (ucast clusters) (2 ^ cb) = Ok (ucast clusters * 2 ^ cb :: u64)"
    and "unat (ucast clusters * 2 ^ cb div 8 :: u64) = unat clusters * 2 ^ cb div 8"
proof -
  show cb: "9 \<le> cb" "cb \<le> 20" and ord: "ord \<le> 6"
    using assms(1-3) by (simp_all add: cb_def ord_def word_le_nat_alt word_less_nat_alt)
  show "shl_chk 1 cluster_bits = Ok (2 ^ cb :: u64)" "shl_chk 1 order = Ok (2 ^ ord :: u32)"
    using cb ord by (simp_all add: shl_chk_def cb_def ord_def push_bit_eq_mult)
  have c: "unat (ucast clusters :: u64) = unat clusters" by (rule unat_ucast_u32)
  have p: "unat (2 ^ cb :: u64) = 2 ^ cb" using cb by (simp add: unat_2_power)
  have "(2 :: nat) ^ cb \<le> 2 ^ 20" using cb by (intro power_increasing) auto
  moreover have "unat clusters < 2 ^ 32" using unsigned_less [of clusters, where 'a = nat] by simp
  ultimately have "unat clusters * 2 ^ cb < 2 ^ 32 * 2 ^ 20" by (intro mult_less_le_imp_less) auto
  then have lt: "unat clusters * 2 ^ cb < 2 ^ 64" by simp
  then show "mul_chk (ucast clusters) (2 ^ cb) = Ok (ucast clusters * 2 ^ cb :: u64)"
    by (simp add: mul_chk_def c p)
  have "unat (ucast clusters * 2 ^ cb :: u64) = unat clusters * 2 ^ cb"
    using lt by (subst unat_times_no_overflow) (simp_all add: c p)
  then show "unat (ucast clusters * 2 ^ cb div 8 :: u64) = unat clusters * 2 ^ cb div 8"
    by (simp add: unat_div)
qed

text \<open>The report without its overflow checks: the header, then the two tables and the scan.\<close>

definition report_from ::
  "'b read_seek_ops \<Rightarrow> nat \<Rightarrow> nat \<Rightarrow> u64 \<Rightarrow> nat \<Rightarrow> u64 \<Rightarrow> nat \<Rightarrow> (u64 \<Rightarrow> u64 \<Rightarrow> refcount_report)
     \<Rightarrow> ('b, qcow2_error, refcount_report) op" where
  "report_from V cb ord rt_off rt_n l1_off l1_n mk =
    st_bind (read_u64_table_checked V rt_off rt_n) (\<lambda>rt.
    st_bind (read_u64_table V l1_off l1_n) (\<lambda>l1.
    st_bind (scan_l1 V rt (2 ^ ord) (2 ^ cb) l1 0 0) (\<lambda>(allocated, orphans).
    st_ret (mk allocated orphans))))"

definition header_report :: "u8 list \<Rightarrow> u32 \<Rightarrow> u64 \<Rightarrow> u64 \<Rightarrow> refcount_report" where
  "header_report hdr order allocated orphans =
     \<lparr>rr_refcount_order = order, rr_table_offset = be_word_at 8 hdr 48,
      rr_table_clusters = be_word_at 4 hdr 56, rr_allocated_clusters = allocated,
      rr_orphan_clusters = orphans\<rparr>"

definition header_order :: "u8 list \<Rightarrow> u32" where
  "header_order hdr =
     (if be_word_at 4 hdr 4 = (3 :: u32) \<and> 100 \<le> length hdr then be_word_at 4 hdr 96 else 4)"

lemma refcount_report_of_eq:
  "refcount_report_of V =
    st_bind (st_map_err Io (dev_read V 104)) (\<lambda>hdr.
    if 104 < length hdr then st_panic else
    if length hdr < MIN_HEADER_SIZE then st_err FileTooSmall else
    if be_word_at 4 hdr 0 \<noteq> MAGIC then st_err BadMagic else
    if \<not> (2 \<le> (be_word_at 4 hdr 4 :: u32) \<and> (be_word_at 4 hdr 4 :: u32) \<le> 3)
    then st_err (UnsupportedVersion (be_word_at 4 hdr 4)) else
    let cluster_bits = be_word_at 4 hdr 20; order = header_order hdr in
    if \<not> (9 \<le> cluster_bits \<and> cluster_bits \<le> 20) then st_err (ClusterBitsOutOfRange cluster_bits)
    else if 6 < order then st_ret (header_report hdr order 0 0)
    else report_from V (unat cluster_bits) (unat order) (be_word_at 8 hdr 48)
      (min (unat (be_word_at 4 hdr 56 :: u32) * 2 ^ unat cluster_bits div 8) (2 ^ 20))
      (be_word_at 8 hdr 40) (min (unat (be_word_at 4 hdr 36 :: u32)) (2 ^ 20))
      (header_report hdr order))"
  unfolding refcount_report_of_def
  apply (intro ext st_bind_cong)
  subgoal for s hdr s'
  proof -
    define cbw ow where "cbw = (be_word_at 4 hdr 20 :: u32)" and "ow = header_order hdr"
    note defs = rc_fields cbw_def [symmetric] header_order_def [symmetric] ow_def [symmetric] Let_def
    show ?thesis
    proof (cases "9 \<le> cbw \<and> cbw \<le> 20")
      case cb: True
      show ?thesis
      proof (cases "6 < ow")
        case True
        have "\<not> 6 < (0 :: u32)" by simp
        note g = rc_geometry(4) [OF conjunct1 [OF cb] conjunct2 [OF cb] this]
        with cb True show ?thesis
          by (simp only: defs st_bind_lift_Ok_fun if_True if_False simp_thms g)
             (simp only: header_report_def)
      next
        case False
        note g = rc_geometry [OF conjunct1 [OF cb] conjunct2 [OF cb] False]
        from cb False show ?thesis
          by (simp only: defs st_bind_lift_Ok_fun if_True if_False simp_thms g report_from_def
              RC_MAX_L1_ENTRIES_def header_report_def)
      qed
    qed (simp add: defs)
  qed
  done

context read_seek
begin

lemma rc_read_at_safe: "op_safe inv (rc_read_at V off n) (\<lambda>bs. \<forall>b. bs = Some b \<longrightarrow> length b = n)"
proof -
  have "rc_read_at V off n = st_ok (read_exact_at V off n)"
    by (auto simp: fun_eq_iff rc_read_at_def read_exact_at_def st_bind_def st_ok_def st_ret_apply
        split: prod.split outcome.split)
  then show ?thesis by (auto intro: op_safe_ok [OF read_exact_at_safe])
qed

lemma read_refcount_safe:
  assumes "ord \<le> 6" and "2 ^ ord dvd bo" and "bo < 2 ^ 64"
  shows "op_safe inv (read_refcount V (2 ^ ord) (of_nat bo) off) (\<lambda>_. True)"
proof -
  have sub: "sub_byte (2 ^ ord) (of_nat bo) b \<noteq> Panic" if "ord \<le> 2" for b
  proof -
    have u: "unat (of_nat bo :: u64) = bo" using assms(3) by (simp only: unat_of_nat) simp
    have m: "unat (of_nat bo :: u64) mod 8 = bo mod 8" by (simp only: u)
    have w: "bo mod 8 + 2 ^ ord \<le> 8"
    proof -
      from that consider "ord = 0" | "ord = 1" | "ord = 2" by force
      then show ?thesis using assms(2) by cases (simp_all, presburger+)
    qed
    show ?thesis unfolding sub_byte_eq [OF that w m] by simp
  qed
  have small: "ord \<le> 2" if "(2 ^ ord :: u32) = 1 \<or> (2 ^ ord :: u32) = 2 \<or> (2 ^ ord :: u32) = 4"
    using that assms(1) by (cases rule: ord_cases [OF assms(1)]) simp_all
  have np: "sub_byte k (of_nat bo) b \<noteq> Panic"
    if "(2 ^ ord :: u32) = k" and "k = 1 \<or> k = 2 \<or> k = 4" for k b
    using sub [OF small] that by auto
  show ?thesis
    unfolding read_refcount_def
    by (intro op_safe_if op_safe_bind [OF rc_read_at_safe] op_safe_ret TrueI)
       (auto split: option.split intro!: op_safe_ret op_safe_bind [OF op_safe_lift [where Q = "\<lambda>_. True"]]
         simp: np)
qed

lemma refcount_of_safe:
  assumes g: "9 \<le> cb" "cb \<le> 20" "ord \<le> 6"
  shows "op_safe inv (refcount_of V rt idx (2 ^ ord) (2 ^ cb)) (\<lambda>_. True)"
proof -
  let ?bo = "refcount_bit_off cb ord (unat idx)"
  have "2 ^ ord dvd ?bo" by (simp add: refcount_bit_off_def)
  moreover have "?bo < 2 ^ 64" using refcount_bit_off_bounds(2) [OF g, of "unat idx"] by simp
  ultimately show ?thesis
    unfolding refcount_of_eq [OF g]
    by (auto split: option.split intro!: op_safe_ret op_safe_if read_refcount_safe g)
qed

lemma read_u64_table_checked_safe:
  assumes "n \<le> 2 ^ 20"
  shows "op_safe inv (read_u64_table_checked V off n) (\<lambda>_. True)"
  unfolding read_u64_table_checked_def using assms
  by (intro op_safe_if op_safe_ret op_safe_bind [OF op_safe_map_err [OF seek_safe]]
      op_safe_bind [OF op_safe_map_err [OF read_exact_safe]]) (simp_all add: usize_limit_def)

lemma read_u64_table_safe:
  "n \<le> 2 ^ 20 \<Longrightarrow> op_safe inv (read_u64_table V off n) (\<lambda>_. True)"
  unfolding read_u64_table_def
  by (intro op_safe_bind [OF op_safe_ok [OF read_u64_table_checked_safe]] op_safe_ret) simp_all

lemma scan_l2_safe:
  assumes g: "9 \<le> cb" "cb \<le> 20" "ord \<le> 6" and "counters_ok a n" and "unat a \<le> scan_cap"
  shows "op_safe inv (scan_l2 V rt (2 ^ ord) (2 ^ cb) es a n)
    (\<lambda>(a', n', stop). counters_ok a' n' \<and> (\<not> stop \<longrightarrow> unat a' \<le> scan_cap))"
  using assms(4,5)
proof (induction es arbitrary: a n)
  case Nil
  then show ?case by (simp add: op_safe_ret)
next
  case (Cons e es)
  have a1: "add_chk a 1 = Ok (a + 1)" "unat (a + 1) = unat a + 1"
    using Cons.prems(2) unat_plus_no_overflow [of a 1] by (simp_all add: add_chk_def scan_cap_def)
  have n1: "add_chk n 1 = Ok (n + 1)" "unat (n + 1) = unat n + 1"
    using Cons.prems unat_plus_no_overflow [of n 1]
    by (simp_all add: add_chk_def scan_cap_def counters_ok_def word_le_nat_alt)
  have d: "div_chk h (2 ^ cb) = Ok (h div 2 ^ cb)" for h :: u64
    using g by (simp add: div_chk_def exp_eq_zero_iff)
  have c: "counters_ok (a + 1) n" "counters_ok (a + 1) (n + 1)"
    using Cons.prems a1 n1 by (auto simp: counters_ok_def word_le_nat_alt)
  have cap: "unat (a + 1) \<le> scan_cap" if "\<not> MAX_CLUSTERS_SCANNED < a + 1"
    using that a1(2) by (simp add: MAX_CLUSTERS_SCANNED_def scan_cap_def word_less_nat_alt)
  let ?Q = "\<lambda>(a', n', stop). counters_ok a' n' \<and> (\<not> stop \<longrightarrow> unat a' \<le> scan_cap)"
  have count: "op_safe inv (st_bind (if rc = Some 0 then st_lift (add_chk n 1) else st_ret n)
      (\<lambda>n. scan_l2 V rt (2 ^ ord) (2 ^ cb) es (a + 1) n)) ?Q"
    if "\<not> MAX_CLUSTERS_SCANNED < a + 1" for rc
    using Cons.IH c cap [OF that]
    by (cases "rc = Some 0") (simp_all add: n1 st_bind_lift_Ok_fun st_bind_ret_fun)
  show ?case
    unfolding scan_l2.simps Let_def a1(1) d st_bind_lift_Ok_fun
    using Cons.IH [OF Cons.prems] c(1)
    by (intro op_safe_if op_safe_bind [OF refcount_of_safe [OF g]] count op_safe_ret) auto
qed

lemma scan_l1_safe:
  assumes g: "9 \<le> cb" "cb \<le> 20" "ord \<le> 6" and "counters_ok a n" and "unat a \<le> scan_cap"
  shows "op_safe inv (scan_l1 V rt (2 ^ ord) (2 ^ cb) l1 a n) (\<lambda>(a', n'). counters_ok a' n')"
  using assms(4,5)
proof (induction l1 arbitrary: a n)
  case Nil
  then show ?case by (simp add: op_safe_ret)
next
  case (Cons e l1)
  have "(2 :: nat) ^ cb \<le> 2 ^ 20" using g by (intro power_increasing) auto
  then have "unat (2 ^ cb div 8 :: u64) \<le> 2 ^ 20"
    using g by (simp add: unat_div unat_2_power le_trans [OF div_le_dividend])
  note table = read_u64_table_safe [OF this]
  show ?case
    unfolding scan_l1.simps Let_def
    by (intro op_safe_if op_safe_bind [OF table] op_safe_bind [OF scan_l2_safe [OF g Cons.prems]])
       (use Cons.IH Cons.prems in \<open>auto intro!: op_safe_ret op_safe_if\<close>)
qed

lemma report_from_safe:
  assumes g: "9 \<le> cb" "cb \<le> 20" "ord \<le> 6" and n: "rt_n \<le> 2 ^ 20" "l1_n \<le> 2 ^ 20"
    and mk: "\<And>a n. rr_allocated_clusters (mk a n) = a" "\<And>a n. rr_orphan_clusters (mk a n) = n"
  shows "op_safe inv (report_from V cb ord rt_off rt_n l1_off l1_n mk)
     (\<lambda>r. counters_ok (rr_allocated_clusters r) (rr_orphan_clusters r))"
proof -
  have zero: "counters_ok 0 0" "unat (0 :: u64) \<le> scan_cap" by (simp_all add: counters_ok_def)
  show ?thesis
    unfolding report_from_def
    by (intro op_safe_bind [OF read_u64_table_checked_safe [OF n(1)]]
        op_safe_bind [OF read_u64_table_safe [OF n(2)]] op_safe_bind [OF scan_l1_safe [OF g zero]])
       (auto simp: mk intro!: op_safe_ret)
qed

lemma report_of_safe:
  "op_safe inv (refcount_report_of V)
     (\<lambda>r. counters_ok (rr_allocated_clusters r) (rr_orphan_clusters r))"
proof -
  have zero: "counters_ok 0 0" by (simp add: counters_ok_def)
  show ?thesis
    unfolding refcount_report_of_eq Let_def
    by (intro op_safe_bind [OF op_safe_map_err [OF read_safe]] op_safe_if op_safe_err op_safe_ret
        report_from_safe) (simp_all add: header_report_def zero word_le_nat_alt word_less_nat_alt not_less)
qed

end
section \<open>The report, specified over the bytes of the image\<close>

definition report_result :: "u8 list \<Rightarrow> (qcow2_error, refcount_report) outcome \<Rightarrow> bool" where
  "report_result img x =
    (let version = be_word_at 4 img 4 :: u32;
         cluster_bits = be_word_at 4 img 20 :: u32;
         cb = unat cluster_bits;
         order = header_order img;
         rt_off = unat (be_word_at 8 img 48 :: u64);
         rt_n = min (unat (be_word_at 4 img 56 :: u32) * 2 ^ cb div 8) (2 ^ 20);
         rt = table_at img rt_off rt_n;
         l1 = table_at img (unat (be_word_at 8 img 40 :: u64))
           (min (unat (be_word_at 4 img 36 :: u32)) (2 ^ 20));
         hosts = reachable_hosts cb img l1
     in if length img < 72 then x = Err FileTooSmall
        else if be_word_at 4 img 0 \<noteq> MAGIC then x = Err BadMagic
        else if version \<notin> {2, 3} then x = Err (UnsupportedVersion version)
        else if cb < 9 \<or> 20 < cb then x = Err (ClusterBitsOutOfRange cluster_bits)
        else if 6 < unat order then x = Ok (header_report img order 0 0)
        else if rt_n = 0 \<or> rt_off = 0 \<or> rt_off + 8 * rt_n \<le> length img then
          x = Ok (header_report img order (of_nat (min (length hosts) (scan_cap + 1)))
            (of_nat (orphan_count cb (unat order) rt img (take scan_cap hosts))))
        else (case x of Err (Io _) \<Rightarrow> True | _ \<Rightarrow> False))"

context byte_source
begin

lemma report_from_spec:
  fixes rt_off l1_off :: u64
  assumes b: "inv b" and g: "9 \<le> cb" "cb \<le> 20" "ord \<le> 6" and n: "rt_n \<le> 2 ^ 20" "l1_n \<le> 2 ^ 20"
  defines "img \<equiv> content b"
  defines "rt \<equiv> table_at img (unat rt_off) rt_n"
    and "hosts \<equiv> reachable_hosts cb img (table_at img (unat l1_off) l1_n)"
  shows "if rt_n = 0 \<or> rt_off = 0 \<or> unat rt_off + 8 * rt_n \<le> length img
    then fst (report_from V cb ord rt_off rt_n l1_off l1_n mk b) =
      Ok (mk (of_nat (min (length hosts) (scan_cap + 1)))
        (of_nat (orphan_count cb ord rt img (take scan_cap hosts))))
    else \<exists>e. fst (report_from V cb ord rt_off rt_n l1_off l1_n mk b) = Err (Io e)"
proof -
  from read_u64_table_checked_spec [OF b n(1), of rt_off] obtain x b1 where
    e1: "read_u64_table_checked V rt_off rt_n b = (x, b1)" and b1: "inv b1" "content b1 = img"
    and x: "if rt_n = 0 \<or> rt_off = 0 \<or> unat rt_off + 8 * rt_n \<le> length img
     then x = Ok rt else \<exists>e. x = Err (Io e)"
    unfolding img_def rt_def by blast
  show ?thesis
  proof (cases "rt_n = 0 \<or> rt_off = 0 \<or> unat rt_off + 8 * rt_n \<le> length img")
    case True
    with x have xr: "x = Ok rt" by simp
    from read_u64_table_spec [OF b1(1) n(2), of l1_off] obtain b2 where
      e2: "read_u64_table V l1_off l1_n b1 = (Ok (table_at img (unat l1_off) l1_n), b2)"
      and b2: "inv b2" "content b2 = img"
      unfolding b1(2) by blast
    have "(0 :: nat) \<le> scan_cap" by simp
    from scan_l1_spec [OF b2(1) g this order_refl, of rt "table_at img (unat l1_off) l1_n"]
    obtain b3 where
      "scan_l1 V rt (2 ^ ord) (2 ^ cb) (table_at img (unat l1_off) l1_n) 0 0 b2 =
        (Ok (of_nat (min (length hosts) (scan_cap + 1)),
           of_nat (orphan_count cb ord rt img (take scan_cap hosts))), b3)"
      by (auto simp: Let_def b2(2) hosts_def)
    with True e1 e2 xr show ?thesis
      by (simp add: report_from_def st_bind_def st_ret_apply)
  next
    case False
    with x e1 show ?thesis by (auto simp: report_from_def st_bind_def)
  qed
qed

end

context file_source
begin

lemma report_of_spec:
  assumes b: "inv b" and p: "pos b = 0"
  shows "report_result (content b) (fst (refcount_report_of V b))"
proof -
  let ?img = "content b"
  from read_all [OF b, of 104] p obtain b1 where r: "dev_read V 104 b = (Ok (take 104 ?img), b1)" by auto
  from read_pieceE [OF b, of 104] r have b1: "inv b1" "content b1 = ?img" by auto
  define cbw ow where "cbw = (be_word_at 4 ?img 20 :: u32)" and "ow = header_order ?img"
  have hl: "length (take 104 ?img) < 72 \<longleftrightarrow> length ?img < 72" "\<not> 104 < length (take 104 ?img)"
    "100 \<le> length (take 104 ?img) \<longleftrightarrow> 100 \<le> length ?img" by auto
  have h: "header_order (take 104 ?img) = ow"
    "header_report (take 104 ?img) = header_report ?img"
    by (simp_all only: ow_def header_order_def header_report_def be_word_at_take hl fun_eq_iff) simp_all
  have e: "fst (refcount_report_of V b) = fst ((
    if length ?img < 72 then st_err FileTooSmall else
    if be_word_at 4 ?img 0 \<noteq> MAGIC then st_err BadMagic else
    if be_word_at 4 ?img 4 \<notin> {2, 3 :: u32}
    then st_err (UnsupportedVersion (be_word_at 4 ?img 4)) else
    if \<not> (9 \<le> cbw \<and> cbw \<le> 20) then st_err (ClusterBitsOutOfRange cbw)
    else if 6 < ow then st_ret (header_report ?img ow 0 0)
    else report_from V (unat cbw) (unat ow) (be_word_at 8 ?img 48)
      (min (unat (be_word_at 4 ?img 56 :: u32) * 2 ^ unat cbw div 8) (2 ^ 20))
      (be_word_at 8 ?img 40) (min (unat (be_word_at 4 ?img 36 :: u32)) (2 ^ 20))
      (header_report ?img ow)) b1)"
    unfolding refcount_report_of_eq using r
    by (simp only: st_bind_def st_map_err_def r fst_conv snd_conv map_outcome_err.simps prod.case
        outcome.case hl if_False h Let_def MIN_HEADER_SIZE_def cbw_def u32_2_3)
       (simp add: be_word_at_take del: length_take)
  have cb: "9 \<le> cbw \<and> cbw \<le> 20 \<longleftrightarrow> \<not> (unat cbw < 9 \<or> 20 < unat cbw)"
    and o6: "6 < ow \<longleftrightarrow> 6 < unat ow"
    by (auto simp: word_le_nat_alt word_less_nat_alt)
  let ?rt = "be_word_at 8 ?img 48 :: u64" and ?l1 = "be_word_at 8 ?img 40 :: u64"
  let ?rn = "min (unat (be_word_at 4 ?img 56 :: u32) * 2 ^ unat cbw div 8) (2 ^ 20)"
  let ?ln = "min (unat (be_word_at 4 ?img 36 :: u32)) (2 ^ 20)"
  have z: "?rt = 0 \<longleftrightarrow> unat ?rt = 0" by (simp only: unat_eq_0)
  show ?thesis
  proof (cases "\<not> (unat cbw < 9 \<or> 20 < unat cbw) \<and> \<not> 6 < unat ow")
    case True
    then have g: "9 \<le> unat cbw" "unat cbw \<le> 20" "unat ow \<le> 6" by auto
    have n: "?rn \<le> 2 ^ 20" "?ln \<le> 2 ^ 20" by (rule min.cobounded2)+
    note f = report_from_spec [OF b1(1) g n, of ?rt ?l1 "header_report ?img ow", unfolded b1(2) z]
    show ?thesis
      using True f unfolding e report_result_def Let_def cb o6 cbw_def [symmetric] ow_def [symmetric]
      by (auto simp: st_err_apply st_ret_apply split: if_splits)
  next
    case False
    then show ?thesis
      unfolding e report_result_def Let_def cb o6 cbw_def [symmetric] ow_def [symmetric]
      by (auto simp: st_err_apply st_ret_apply)
  qed
qed

end
text \<open>The report of a path, from the bytes of the file.\<close>

lemma refcount_report_bytes:
  assumes "fs path = Inr bs" and "length bs < isize_limit"
  shows "refcount_report fs path \<noteq> Panic" and "report_result bs (refcount_report fs path)"
proof -
  have m: "medium_ok (medium_of bs)" using assms(2) by (simp add: medium_ok_def medium_of_def)
  then show "refcount_report fs path \<noteq> Panic"
    using file_bytes.report_of_safe by (auto simp: op_safe_def refcount_report_def file_open_def assms(1))
  show "report_result bs (refcount_report fs path)"
    using regular_file.report_of_spec [OF m]
    by (simp add: refcount_report_def file_open_def assms(1) medium_of_def)
qed

section \<open>Properties\<close>

text \<open>
  C15. The seven branches of the refcount lookup implement one definition: for every accepted cluster
  size and refcount order the result is the field of 2^order bits at its bit position in the
  refcount block of the image, most significant bit first; nothing when the table or the image
  ends before it. A table entry without a block gives a definite 0, as the comment inside the
  function says and the one above it denies.
\<close>

theorem refcount_any_width:
  assumes "byte_source V ok content pos" and "ok b"
    and "9 \<le> cb" and "cb \<le> 20" and "ord \<le> 6"
  shows "fst (refcount_of V rt idx (2 ^ ord) (2 ^ cb) b)
    = Ok (map_option of_nat (refcount_value cb ord rt (content b) (unat idx)))"
  using byte_source.refcount_of_spec [OF assms, of rt idx] by auto

text \<open>A block of 4-bit refcounts at offset 512: cluster 0 has 10, cluster 1 has 11.\<close>

definition nibbles :: "u8 list" where
  "nibbles = replicate 512 0 @ [0xAB]"

lemma be_nat_nibbles: "be_nat nibbles = 0xAB"
  by (simp add: nibbles_def be_nat_append) (simp add: be_nat_def)

theorem refcount_any_width_witness:
  "fst (refcount_of cursor_ops [512] 1 4 512 (medium_of nibbles)) = Ok (Some 11)"
proof -
  have l: "length nibbles = 513" by (simp add: nibbles_def)
  have "refcount_value 9 2 [512] nibbles 1 = Some 11"
    by (simp add: refcount_value_def get_at_def refcounts_per_block_def block_offset_def Let_def
        refcount_bit_off_def l bit_field_def be_nat_nibbles)
  moreover have "medium_ok (medium_of nibbles)"
    by (simp add: medium_ok_def medium_of_def l isize_limit_def)
  ultimately show ?thesis
    using refcount_any_width [OF cursor_source.byte_source_axioms, of "medium_of nibbles" 9 2 "[512]" 1]
    by (simp add: medium_of_def)
qed

text \<open>
  C16. The refcount report is determined by the bytes of the image: the header errors in the order
  they are tested, the empty report of an order above 6, a loud I/O error when the image ends
  inside the refcount table, and otherwise the number of data clusters the L1 and L2 tables
  reach and, among the first 2^24 of them, of those with a refcount that is provably 0.
\<close>

theorem report_from_bytes:
  assumes "file_source V ok content pos file_len" and "ok b" and "pos b = 0"
  shows "report_result (content b) (fst (refcount_report_of V b))"
  using assms by (rule file_source.report_of_spec)

theorem report_from_bytes_witness:
  "fst (refcount_report_of file_ops (medium_of nibbles)) = Err BadMagic"
proof -
  have l: "length nibbles = 513" by (simp add: nibbles_def)
  have "medium_ok (medium_of nibbles)"
    by (simp add: medium_ok_def medium_of_def l isize_limit_def)
  from report_from_bytes [OF regular_file.file_source_axioms this] have
    "report_result nibbles (fst (refcount_report_of file_ops (medium_of nibbles)))"
    by (simp add: medium_of_def)
  moreover have "take 4 (drop 0 nibbles) = [0, 0, 0, 0]"
    by (simp add: nibbles_def numeral_eq_Suc)
  then have "be_word_at 4 nibbles 0 \<noteq> MAGIC"
    by (simp add: be_word_at_in_range l from_be_def be_nat_def MAGIC_def)
  ultimately show ?thesis by (simp add: report_result_def Let_def l)
qed

text \<open>
  C18. The refcount report never panics, whatever the file holds and however its reads fail, and its
  counters are ordered and bounded: orphans are at most the allocated clusters, and those at
  most 2^24 + 1.
\<close>

theorem report_never_panics:
  assumes "read_seek V ok" and "ok b"
  shows "fst (refcount_report_of V b) \<noteq> Panic \<and>
    (\<forall>r. fst (refcount_report_of V b) = Ok r \<longrightarrow>
       rr_orphan_clusters r \<le> rr_allocated_clusters r \<and>
       unat (rr_allocated_clusters r) \<le> 2 ^ 24 + 1)"
  using read_seek.report_of_safe [OF assms(1)] assms(2)
  by (auto simp: op_safe_def counters_ok_def scan_cap_def)

theorem report_never_panics_witness:
  "fst (refcount_report_of file_ops (medium_of nibbles)) \<noteq> Panic"
  using report_never_panics [OF file_bytes.read_seek_axioms, of "medium_of nibbles"]
  by (simp add: medium_ok_def medium_of_def nibbles_def isize_limit_def)

text \<open>
  When the cap on scanned clusters is hit, the cluster that hits it is counted as allocated but
  its refcount is not looked up.
\<close>

theorem cap_counts_one_unexamined:
  assumes "l2_host e \<noteq> None"
  shows "scan_l2 V rt bits cs (e # es) (of_nat (2 ^ 24)) orphans b = (Ok (of_nat (2 ^ 24 + 1), orphans, True), b)"
proof -
  have "\<not> bit e 62" "\<not> odd (unat e)" "host_field e \<noteq> 0"
    using assms by (auto simp: l2_host_def split: if_splits)
  moreover have "add_chk (of_nat (2 ^ 24)) 1 = (Ok (of_nat (2 ^ 24 + 1)) :: (qcow2_error, u64) outcome)"
    using add_counter [of "2 ^ 24"] by (simp add: scan_cap_def)
  moreover have "MAX_CLUSTERS_SCANNED < of_nat (2 ^ 24 + 1)"
    using over_cap [of "2 ^ 24 + 1"] by (simp add: scan_cap_def)
  ultimately show ?thesis
    by (simp only: scan_l2.simps Let_def and_bit_62 and_1_odd host_field_0 if_False if_True
        st_bind_lift_Ok st_ret_apply simp_thms)
qed

theorem cap_counts_one_unexamined_witness:
  "fst (scan_l2 cursor_ops [] 16 65536 [0x50000] (of_nat (2 ^ 24)) 0 (medium_of []))
    = Ok (of_nat (2 ^ 24 + 1), 0, True)"
  using cap_counts_one_unexamined [of "0x50000" cursor_ops "[]" 16 65536 "[]" 0 "medium_of []"]
  by (simp add: l2_host_def host_field_def)

end
