(* ===== verification/Forensic.thy ===== *)
theory Forensic
  imports Reader Snapshots Refcount
begin

text \<open>
  forensic/src/lib.rs: the anomalies of an image, graded from its header facts, its snapshots and
  its refcount report.  The severities, locations and evidence records of the forensicnomicon crate
  are the parameter \<open>report_api\<close>; \<open>inspect\<close>, \<open>snapshots\<close> and \<open>refcount_report\<close> are the
  definitions of the components they come from.
\<close>

section \<open>Anomalies\<close>

definition FEAT_DIRTY :: u64 where
  "FEAT_DIRTY = push_bit 0 1"

definition FEAT_CORRUPT :: u64 where
  "FEAT_CORRUPT = push_bit 1 1"

definition FEAT_EXTERNAL_DATA :: u64 where
  "FEAT_EXTERNAL_DATA = push_bit 2 1"

datatype qcow2_anomaly =
    BackingFile "rstring option" "rstring option"
  | Encrypted u32
  | InternalSnapshots u32
  | Snapshot rstring u32
  | Dirty
  | Corrupt
  | ExternalDataFile
  | OrphanClusters u64 u64
  | LegacyQcow1

text \<open>What is used of the crate forensicnomicon: three severities and two constructors.\<close>

record ('s, 'l, 'e) report_api =
  sev_high :: 's
  sev_medium :: 's
  sev_low :: 's
  loc_field :: "rstring \<Rightarrow> 'l"
  mk_evidence :: "rstring \<Rightarrow> rstring \<Rightarrow> 'l option \<Rightarrow> 'e"

fun severity :: "('s, 'l, 'e) report_api \<Rightarrow> qcow2_anomaly \<Rightarrow> 's" where
  "severity api Corrupt = sev_high api"
| "severity api (BackingFile name format) = sev_medium api"
| "severity api (Encrypted method) = sev_medium api"
| "severity api (OrphanClusters count allocated) = sev_medium api"
| "severity api ExternalDataFile = sev_medium api"
| "severity api (InternalSnapshots count) = sev_low api"
| "severity api (Snapshot name date) = sev_low api"
| "severity api LegacyQcow1 = sev_low api"
| "severity api Dirty = sev_low api"

fun code :: "qcow2_anomaly \<Rightarrow> rstring" where
  "code (BackingFile name format) = str ''QCOW2-BACKING-FILE''"
| "code (Encrypted method) = str ''QCOW2-ENCRYPTED''"
| "code (InternalSnapshots count) = str ''QCOW2-INTERNAL-SNAPSHOTS''"
| "code (Snapshot name date) = str ''QCOW2-SNAPSHOT''"
| "code Dirty = str ''QCOW2-DIRTY''"
| "code Corrupt = str ''QCOW2-CORRUPT''"
| "code ExternalDataFile = str ''QCOW2-EXTERNAL-DATA''"
| "code (OrphanClusters count allocated) = str ''QCOW2-ORPHAN-CLUSTERS''"
| "code LegacyQcow1 = str ''QCOW2-QCOW1''"

text \<open>\<open>to_string\<close> of an unsigned integer, and the dash the notes contain, in UTF-8.\<close>

fun dec :: "nat \<Rightarrow> rstring" where
  "dec n = (if n < 10 then [of_nat (48 + n)] else dec (n div 10) @ [of_nat (48 + n mod 10)])"

declare dec.simps [simp del]

definition em_dash :: rstring where
  "em_dash = [0xE2, 0x80, 0x94]"

fun anomaly_note :: "qcow2_anomaly \<Rightarrow> rstring" where
  "anomaly_note (BackingFile (Some n) (Some f)) =
     str ''image references backing file `'' @ n @ str ''` (format '' @ f @ str '') '' @ em_dash
     @ str '' it is an overlay and does not alone contain the full guest data''"
| "anomaly_note (BackingFile (Some n) None) =
     str ''image references backing file `'' @ n @ str ''` '' @ em_dash
     @ str '' it is an overlay and does not alone contain the full guest data''"
| "anomaly_note (BackingFile None f) =
     str ''image references a backing file '' @ em_dash
     @ str '' it is an overlay and does not alone contain the full guest data''"
| "anomaly_note (Encrypted method) =
     str ''image is encrypted (method '' @ dec (unat method) @ str '') '' @ em_dash
     @ str '' contents are inaccessible without the key''"
| "anomaly_note (InternalSnapshots count) =
     str ''image carries '' @ dec (unat count) @ str '' internal snapshot(s) '' @ em_dash
     @ str '' additional captured guest states to examine''"
| "anomaly_note (Snapshot name date) =
     str ''internal snapshot `'' @ name @ str ''` captured at unix time '' @ dec (unat date)
     @ str '' '' @ em_dash @ str '' a recoverable point-in-time guest state to examine''"
| "anomaly_note Dirty =
     str ''the dirty bit is set '' @ em_dash
     @ str '' consistent with the image not having been closed cleanly (in use or crashed)''"
| "anomaly_note Corrupt =
     str ''the corrupt bit is set '' @ em_dash @ str '' QEMU flagged the image as corrupt''"
| "anomaly_note ExternalDataFile =
     str ''image stores guest data in an external data file '' @ em_dash
     @ str '' the data is not self-contained''"
| "anomaly_note (OrphanClusters count allocated) =
     dec (unat count) @ str '' of '' @ dec (unat allocated)
     @ str '' allocated cluster(s) are reachable through L1/L2 yet have a host refcount of 0 ''
     @ em_dash @ str '' consistent with orphaned or deleted guest data left in the image''"
| "anomaly_note LegacyQcow1 =
     str ''image uses the legacy QCOW1 (version 1) format '' @ em_dash
     @ str '' an obsolete container predating QCOW2's refcounts, snapshots, and feature bits''"

section \<open>Evidence\<close>

definition observation_severity :: "('s, 'l, 'e) report_api \<Rightarrow> qcow2_anomaly \<Rightarrow> 's option" where
  "observation_severity api a = Some (severity api a)"

definition header_evidence :: "('s, 'l, 'e) report_api \<Rightarrow> rstring \<Rightarrow> rstring \<Rightarrow> 'e" where
  "header_evidence api field value =
     mk_evidence api field value (Some (loc_field api (str ''QCOW2 header'')))"

fun evidence :: "('s, 'l, 'e) report_api \<Rightarrow> qcow2_anomaly \<Rightarrow> 'e list" where
  "evidence api (Snapshot name date) =
     (let loc = Some (loc_field api (str ''QCOW2 snapshot table'')) in
      [mk_evidence api (str ''snapshot_name'') name loc,
       mk_evidence api (str ''date_unix_secs'') (dec (unat date)) loc])"
| "evidence api (BackingFile name format) =
     header_evidence api (str ''backing_file'')
       (case name of Some n \<Rightarrow> n | None \<Rightarrow> str ''present'')
     # (case format of Some f \<Rightarrow> [header_evidence api (str ''backing_format'') f] | None \<Rightarrow> [])"
| "evidence api (Encrypted method) =
     [header_evidence api (str ''crypt_method'') (dec (unat method))]"
| "evidence api (InternalSnapshots count) =
     [header_evidence api (str ''nb_snapshots'') (dec (unat count))]"
| "evidence api Dirty = [header_evidence api (str ''incompatible_features'') (str ''dirty'')]"
| "evidence api Corrupt = [header_evidence api (str ''incompatible_features'') (str ''corrupt'')]"
| "evidence api ExternalDataFile =
     [header_evidence api (str ''incompatible_features'') (str ''external-data'')]"
| "evidence api (OrphanClusters count allocated) =
     (let loc = Some (loc_field api (str ''QCOW2 refcount table'')) in
      [mk_evidence api (str ''orphan_clusters'') (dec (unat count)) loc,
       mk_evidence api (str ''allocated_clusters'') (dec (unat allocated)) loc])"
| "evidence api LegacyQcow1 = [header_evidence api (str ''version'') (str ''1'')]"

section \<open>The audits\<close>

definition audit :: "qcow2_info \<Rightarrow> qcow2_anomaly list" where
  "audit info =
    (if i_version info = 1 then [LegacyQcow1] else [])
    @ (if i_has_backing_file info
       then [BackingFile (i_backing_file info) (i_backing_format info)] else [])
    @ (if i_encryption_method info \<noteq> 0 then [Encrypted (i_encryption_method info)] else [])
    @ (if 0 < i_snapshot_count info then [InternalSnapshots (i_snapshot_count info)] else [])
    @ (if i_incompatible_features info AND FEAT_DIRTY \<noteq> 0 then [Dirty] else [])
    @ (if i_incompatible_features info AND FEAT_CORRUPT \<noteq> 0 then [Corrupt] else [])
    @ (if i_incompatible_features info AND FEAT_EXTERNAL_DATA \<noteq> 0 then [ExternalDataFile] else [])"

definition audit_snapshots :: "qcow2_snapshot list \<Rightarrow> qcow2_anomaly list" where
  "audit_snapshots ss = map (\<lambda>s. Snapshot (snap_name s) (snap_date_unix_secs s)) ss"

definition audit_orphans :: "refcount_report \<Rightarrow> qcow2_anomaly option" where
  "audit_orphans report =
     (if rr_orphan_clusters report = 0 then None
      else Some (OrphanClusters (rr_orphan_clusters report) (rr_allocated_clusters report)))"

definition audit_path :: "'p file_system \<Rightarrow> 'p \<Rightarrow> (qcow2_error, qcow2_anomaly list) outcome" where
  "audit_path fs path =
    and_then (inspect fs path) (\<lambda>info.
    and_then (snapshots fs path) (\<lambda>ss.
    and_then (refcount_report fs path) (\<lambda>report.
    Ok (audit info @ audit_snapshots ss
        @ (case audit_orphans report of None \<Rightarrow> [] | Some a \<Rightarrow> [a])))))"

lemma feature_bits:
  "x AND FEAT_DIRTY \<noteq> 0 \<longleftrightarrow> bit x 0" "x AND FEAT_CORRUPT \<noteq> 0 \<longleftrightarrow> bit x 1"
  "x AND FEAT_EXTERNAL_DATA \<noteq> 0 \<longleftrightarrow> bit x 2" for x :: u64
  unfolding FEAT_DIRTY_def FEAT_CORRUPT_def FEAT_EXTERNAL_DATA_def
  by (rule and_single_bit; unfold bit_push_bit_iff bit_1_iff; auto)+

section \<open>The audit of a path, from the bytes of the file\<close>

lemma inspect_bytes:
  assumes "fs path = Inr bs" and "length bs < isize_limit"
  shows "inspect fs path = info_parse (take 8192 bs)"
proof -
  have "medium_ok (medium_of bs)" using assms(2) by (simp add: medium_ok_def medium_of_def)
  from file_bytes.read_window_spec [OF this, of 8192] show ?thesis
    by (auto simp: inspect_def file_open_def assms(1) medium_of_def)
qed

lemma audit_path_total:
  assumes "fs path = Inr bs" and "length bs < isize_limit"
  shows "audit_path fs path \<noteq> Panic"
  using inspect_bytes [where fs = fs and path = path, OF assms] info_parse_no_panic [of "take 8192 bs"] assms(2)
    snapshots_bytes(1) [where fs = fs and path = path, OF assms] refcount_report_bytes(1) [where fs = fs and path = path, OF assms]
  by (auto simp: audit_path_def and_then_Panic_iff)

lemma sample_snapshots: "snapshots_result sample_image = Ok []"
  by (simp add: snapshots_result_def sample_defs be_word_at_def get_range_def from_be_def be_nat_def
      MAGIC_def)

lemma sample_report: "report_result sample_image x \<longleftrightarrow> x = Ok (header_report sample_image 4 0 0)"
proof -
  have f: "be_word_at 4 sample_image 0 = MAGIC" "be_word_at 4 sample_image 4 = (2 :: u32)"
    "be_word_at 4 sample_image 20 = (9 :: u32)" "be_word_at 8 sample_image 48 = (0 :: u64)"
    "be_word_at 8 sample_image 40 = (72 :: u64)" "be_word_at 4 sample_image 36 = (1 :: u32)"
    by (simp_all add: sample_defs be_word_at_def get_range_def from_be_def be_nat_def MAGIC_def)
  have "be_u64_table (take 8 (drop 72 sample_image)) = [80]"
    by (simp add: be_u64_table.simps sample_defs from_be_def be_nat_def)
  then show ?thesis
    by (simp add: report_result_def Let_def f header_order_def sample_length table_at_def
        reachable_hosts_def host_field_def)
qed

definition sample_fs :: "unit file_system" where
  "sample_fs = (\<lambda>_. Inr sample_image)"

lemma sample_fs: "sample_fs () = Inr sample_image" "length sample_image < isize_limit"
  by (simp_all add: sample_fs_def sample_length isize_limit_def)

lemma sample_info: "\<exists>i. info_parse sample_image = Ok i \<and> audit i = []"
proof -
  obtain f where f: "backing_format_name sample_image 2 = Ok f"
    using backing_format_name_no_panic [OF sample_fs(2), of 2] backing_format_name_not_Err
    by (cases "backing_format_name sample_image 2") auto
  have "be_u32 sample_image 4 = 2" "be_u32 sample_image 0 = MAGIC" "be_u64 sample_image 8 = 0"
    "be_u32 sample_image 32 = 0" "be_u32 sample_image 60 = 0"
    by (simp_all add: sample_defs be_u32_def be_u64_def get_range_def from_be_def be_nat_def MAGIC_def)
  then show ?thesis
    by (simp add: info_parse_def Let_def sample_length MIN_HEADER_SIZE_def f audit_def)
qed

lemma sample_audit: "audit_path sample_fs () = Ok []"
proof -
  note s = snapshots_bytes(2) [where fs = sample_fs and path = "()", OF sample_fs]
  note r = refcount_report_bytes(2) [where fs = sample_fs and path = "()", OF sample_fs, unfolded sample_report]
  have "take 8192 sample_image = sample_image" by (simp add: sample_length)
  with sample_info inspect_bytes [where fs = sample_fs and path = "()", OF sample_fs] s sample_snapshots r show ?thesis
    by (auto simp: audit_path_def audit_snapshots_def audit_orphans_def header_report_def)
qed

section \<open>Properties\<close>

text \<open>
  C32. The audit of header facts is sound and complete: a finding is emitted exactly when its
  condition holds, with the payload of the header, and no code appears twice.
\<close>

theorem audit_exact:
  "(\<forall>a. a \<in> set (audit info) \<longleftrightarrow>
     (case a of
        LegacyQcow1 \<Rightarrow> i_version info = 1
      | BackingFile name format \<Rightarrow> i_has_backing_file info \<and> name = i_backing_file info
          \<and> format = i_backing_format info
      | Encrypted method \<Rightarrow> method = i_encryption_method info \<and> method \<noteq> 0
      | InternalSnapshots count \<Rightarrow> count = i_snapshot_count info \<and> count \<noteq> 0
      | Dirty \<Rightarrow> bit (i_incompatible_features info) 0
      | Corrupt \<Rightarrow> bit (i_incompatible_features info) 1
      | ExternalDataFile \<Rightarrow> bit (i_incompatible_features info) 2
      | _ \<Rightarrow> False)) \<and>
   distinct (map code (audit info))"
proof
  show "\<forall>a. a \<in> set (audit info) \<longleftrightarrow>
     (case a of
        LegacyQcow1 \<Rightarrow> i_version info = 1
      | BackingFile name format \<Rightarrow> i_has_backing_file info \<and> name = i_backing_file info
          \<and> format = i_backing_format info
      | Encrypted method \<Rightarrow> method = i_encryption_method info \<and> method \<noteq> 0
      | InternalSnapshots count \<Rightarrow> count = i_snapshot_count info \<and> count \<noteq> 0
      | Dirty \<Rightarrow> bit (i_incompatible_features info) 0
      | Corrupt \<Rightarrow> bit (i_incompatible_features info) 1
      | ExternalDataFile \<Rightarrow> bit (i_incompatible_features info) 2
      | _ \<Rightarrow> False)"
    unfolding audit_def feature_bits
    by (auto simp: word_gt_0 split: qcow2_anomaly.split)
  show "distinct (map code (audit info))"
    unfolding audit_def by simp
qed

text \<open>
  The machine-readable code determines the severity: two findings with one code have the same
  severity, whatever their payload.
\<close>

theorem code_fixes_severity:
  assumes "code a = code b"
  shows "severity api a = severity api b"
  using assms by (cases a; cases b) simp_all

theorem code_fixes_severity_witness:
  "severity \<lparr>sev_high = 3, sev_medium = 2, sev_low = 1 :: nat, loc_field = id, mk_evidence = (\<lambda>f v l. f)\<rparr>
     (Snapshot [] 5) = 1"
  using code_fixes_severity [of "Snapshot [] 5" "Snapshot [65] 7"] by simp

text \<open>The audit of a path never panics, on any file.\<close>

theorem audit_path_never_panics:
  assumes "fs path = Inr bs" and "length bs < isize_limit"
  shows "audit_path fs path \<noteq> Panic"
  using assms by (rule audit_path_total)

theorem audit_path_never_panics_witness: "audit_path sample_fs () \<noteq> Panic"
  by (rule audit_path_never_panics [where fs = sample_fs and path = "()", OF sample_fs])

text \<open>
  C31. The findings for a path are, in this order, those of the header facts in its first 8 KiB, one
  per snapshot of the table, and one for orphaned clusters exactly when the report counts any,
  all determined by the bytes of the file.
\<close>

theorem audit_path_from_bytes:
  assumes "fs path = Inr bs" and "length bs < isize_limit"
    and "audit_path fs path = Ok out"
  shows "\<exists>i ss rep. info_parse (take 8192 bs) = Ok i \<and> snapshots_result bs = Ok ss \<and>
    report_result bs (Ok rep) \<and>
    out = audit i @ map (\<lambda>s. Snapshot (snap_name s) (snap_date_unix_secs s)) ss
      @ (if rr_orphan_clusters rep = 0 then []
         else [OrphanClusters (rr_orphan_clusters rep) (rr_allocated_clusters rep)])"
  using assms(3) inspect_bytes [where fs = fs and path = path, OF assms(1,2)] snapshots_bytes(2) [where fs = fs and path = path, OF assms(1,2)]
    refcount_report_bytes(2) [where fs = fs and path = path, OF assms(1,2)]
  by (auto simp: audit_path_def and_then_Ok_iff audit_snapshots_def audit_orphans_def)

theorem audit_path_from_bytes_witness:
  "\<exists>i ss. info_parse (take 8192 sample_image) = Ok i \<and> snapshots_result sample_image = Ok ss \<and>
    audit i = [] \<and> ss = []"
  using audit_path_from_bytes [where fs = sample_fs and path = "()", OF sample_fs sample_audit] by auto

text \<open>
  C39. A version 1 image is recognised by inspect and the audit of its facts reports the legacy
  format, but the audit of its path is an error: the refcount report refuses the version, so the
  finding is never emitted.
\<close>

theorem legacy_image_not_audited:
  assumes "fs path = Inr bs" and "length bs < isize_limit" and "72 \<le> length bs"
    and "be_word_at 4 bs 0 = MAGIC" and "be_word_at 4 bs 4 = (1 :: u32)"
  shows "(\<exists>i. inspect fs path = Ok i \<and> LegacyQcow1 \<in> set (audit i)) \<and>
    (\<exists>e. audit_path fs path = Err e)"
proof -
  have v: "be_u32 (take 8192 bs) 4 = 1" "be_u32 (take 8192 bs) 0 = MAGIC"
    using assms(4,5) by (simp_all add: be_u32_word_at be_word_at_take)
  have i: "\<exists>i. inspect fs path = Ok i \<and> i_version i = 1"
    using assms(3) v by (simp add: inspect_bytes [where fs = fs and path = path, OF assms(1,2)] info_parse_def Let_def MIN_HEADER_SIZE_def)
  moreover have "refcount_report fs path = Err (UnsupportedVersion 1)"
    using refcount_report_bytes(2) [where fs = fs and path = path, OF assms(1,2)] assms(3-5) by (simp add: report_result_def Let_def)
  moreover have "snapshots fs path \<noteq> Panic" by (rule snapshots_bytes(1) [where fs = fs and path = path, OF assms(1,2)])
  ultimately show ?thesis
    by (cases "snapshots fs path") (auto simp: audit_path_def audit_def)
qed

definition legacy_image :: "u8 list" where
  "legacy_image = [0x51, 0x46, 0x49, 0xfb, 0, 0, 0, 1] @ replicate 64 0"

theorem legacy_image_not_audited_witness:
  "\<exists>e. audit_path (\<lambda>_ :: unit. Inr legacy_image) () = Err e"
proof -
  have "be_word_at 4 legacy_image 0 = MAGIC" "be_word_at 4 legacy_image 4 = (1 :: u32)"
    by (simp_all add: legacy_image_def be_word_at_def get_range_def from_be_def be_nat_def MAGIC_def)
  from legacy_image_not_audited [of "\<lambda>_ :: unit. Inr legacy_image", OF refl _ _ this] show ?thesis
    by (simp add: legacy_image_def isize_limit_def)
qed

text \<open>The findings the header of an accepted image can give.\<close>

lemma strict_audit:
  assumes "header_parse data = Ok h" and "info_parse data = Ok i" and "a \<in> set (audit i)"
  shows "(\<exists>n. a = InternalSnapshots n) \<or> a = Dirty \<or> a = Corrupt"
proof -
  have d: "decodable_header data" using assms(1) by (simp add: header_parse_Ok_iff)
  then have v: "be_u32 data 4 \<noteq> 1" "2 \<le> be_u32 data 4 \<and> be_u32 data 4 \<le> 3"
    using u32_2_3 by (auto simp: decodable_header_def)
  then obtain f where "i = \<lparr>i_version = be_u32 data 4, i_cluster_bits = be_u32 data 20,
      i_virtual_disk_size = be_u64 data 24, i_l1_size = be_u32 data 36, i_has_backing_file = False,
      i_encryption_method = 0, i_snapshot_count = be_u32 data 60,
      i_incompatible_features = (if be_u32 data 4 = 3 \<and> 80 \<le> length data then be_u64 data 72 else 0),
      i_backing_file = backing_file_name data, i_backing_format = f\<rparr>"
    using assms(2) d by (auto simp: info_parse_def Let_def decodable_header_def and_then_Ok_iff split: if_splits)
  then show ?thesis
    using assms(3) d v(1)
    by (auto simp: audit_def feature_bits decodable_header_def split: if_splits)
qed

text \<open>
  C33. An image the reader accepts is never graded as an overlay, encrypted, external or legacy: the
  audit of its header can only report snapshots, the dirty bit or the corrupt bit.
\<close>

theorem readable_image_audits_clean:
  assumes "header_parse data = Ok h" and "info_parse data = Ok i" and "a \<in> set (audit i)"
  shows "(\<exists>n. a = InternalSnapshots n) \<or> a = Dirty \<or> a = Corrupt"
  using assms by (rule strict_audit)

theorem readable_image_audits_clean_witness:
  "\<exists>i. info_parse (take 104 sample_image) = Ok i \<and>
    Encrypted 1 \<notin> set (audit i)"
proof -
  have "take 104 sample_image = sample_image" by (simp add: sample_length)
  with sample_info obtain i where "info_parse (take 104 sample_image) = Ok i" by auto
  with readable_image_audits_clean [OF sample_parse this] show ?thesis by blast
qed

end
