(* ===== verification/Testutil.thy ===== *)
theory Testutil
  imports Guest
begin

text \<open>
  core/src/testutil.rs: the builder of a minimal image, and the round trip through it: whatever
  the sector, the image opens over every source and its guest disk is that sector.
\<close>

section \<open>The builder\<close>

definition CLUSTER_BITS :: u32 where
  "CLUSTER_BITS = 9"

definition CLUSTER_SIZE :: nat where
  "CLUSTER_SIZE = 2 ^ unat CLUSTER_BITS"

definition L1_OFFSET :: u64 where "L1_OFFSET = 512"
definition REFCOUNT_OFFSET :: u64 where "REFCOUNT_OFFSET = 1024"
definition L2_OFFSET :: u64 where "L2_OFFSET = 1536"
definition DATA_OFFSET :: u64 where "DATA_OFFSET = 2048"

definition test_header :: "u8 list" where
  "test_header =
    (let hdr = replicate CLUSTER_SIZE 0;
         hdr = put hdr 0 (to_be 4 MAGIC);
         hdr = put hdr 4 (to_be 4 (2 :: u32));
         hdr = put hdr 20 (to_be 4 CLUSTER_BITS);
         hdr = put hdr 24 (to_be 8 (of_nat CLUSTER_SIZE :: u64));
         hdr = put hdr 36 (to_be 4 (1 :: u32));
         hdr = put hdr 40 (to_be 8 L1_OFFSET);
         hdr = put hdr 48 (to_be 8 REFCOUNT_OFFSET)
     in put hdr 56 (to_be 4 (1 :: u32)))"

definition test_qcow2 :: "u8 list \<Rightarrow> u8 list" where
  "test_qcow2 sector_data =
    (let l1 = put (replicate CLUSTER_SIZE 0) 0 (to_be 8 L2_OFFSET);
         refcount = replicate CLUSTER_SIZE 0;
         l2 = put (replicate CLUSTER_SIZE 0) 0 (to_be 8 DATA_OFFSET);
         n = min (length sector_data) CLUSTER_SIZE;
         data = put (replicate CLUSTER_SIZE 0) 0 (take n sector_data)
     in test_header @ l1 @ refcount @ l2 @ data)"

section \<open>The layout of the image\<close>

lemma CLUSTER_SIZE: "CLUSTER_SIZE = 512"
  by (simp add: CLUSTER_SIZE_def CLUSTER_BITS_def)

lemma length_test_header: "length test_header = 512"
  by (simp add: test_header_def Let_def CLUSTER_SIZE)

lemma test_header_fields:
  "be_word_at 4 test_header 0 = MAGIC" "be_word_at 4 test_header 4 = (2 :: u32)"
  "be_word_at 8 test_header 8 = (0 :: u64)" "be_word_at 4 test_header 20 = (9 :: u32)"
  "be_word_at 8 test_header 24 = (512 :: u64)" "be_word_at 4 test_header 32 = (0 :: u32)"
  "be_word_at 4 test_header 36 = (1 :: u32)" "be_word_at 8 test_header 40 = (512 :: u64)"
  by (simp_all add: test_header_def Let_def CLUSTER_SIZE be_word_at_put_same be_word_at_put_other)
     (simp_all add: CLUSTER_BITS_def L1_OFFSET_def be_word_at_def get_range_def from_be_def)

text \<open>The sector as the guest sees it: cut or zero-padded to a cluster.\<close>

definition padded_sector :: "u8 list \<Rightarrow> u8 list" where
  "padded_sector sd = take 512 (sd @ replicate 512 0)"

lemma test_qcow2_layout:
  "\<exists>l1 l2. test_qcow2 sd = test_header @ (to_be 8 L2_OFFSET @ l1) @ replicate 512 0
      @ (to_be 8 DATA_OFFSET @ l2) @ padded_sector sd \<and> length l1 = 504 \<and> length l2 = 504"
proof -
  have "put (replicate 512 0) 0 (take (min (length sd) 512) sd) = padded_sector sd"
    by (simp add: put_def padded_sector_def min_def)
  then show ?thesis
    by (intro exI [of _ "replicate 504 0"]) (simp add: test_qcow2_def Let_def CLUSTER_SIZE put_def)
qed

lemma length_test_qcow2: "length (test_qcow2 sd) = 2560"
  using test_qcow2_layout [of sd] by (auto simp: length_test_header padded_sector_def)

definition test_fields :: qcow2_header where
  "test_fields = \<lparr>h_cluster_bits = 9, h_disk_size = 512, h_l1_size = 1, h_l1_table_offset = 512\<rparr>"

lemma test_parse: "header_parse (take 104 (test_qcow2 sd)) = Ok test_fields"
proof -
  obtain rest where t: "test_qcow2 sd = test_header @ rest"
    using test_qcow2_layout [of sd] by blast
  have f: "be_word_at n (take 104 (test_qcow2 sd)) off = be_word_at n test_header off"
    if "off + n \<le> 104" for n off
    using that by (simp add: t be_word_at_take be_word_at_append length_test_header del: take_append)
  show ?thesis
    by (simp add: header_parse_Ok_iff decodable_header_def be_u32_word_at be_u64_word_at f
        test_header_fields length_test_qcow2 MIN_HEADER_SIZE_def test_fields_def)
qed

lemma test_tables:
  "be_u64_table (take 8 (drop 512 (test_qcow2 sd))) = [1536]"
  "from_be (take 8 (drop 1536 (test_qcow2 sd))) = (2048 :: u64)"
  "drop 2048 (test_qcow2 sd) = padded_sector sd"
proof -
  obtain l1 l2 where t: "test_qcow2 sd = test_header @ (to_be 8 L2_OFFSET @ l1) @ replicate 512 0
      @ (to_be 8 DATA_OFFSET @ l2) @ padded_sector sd" and l: "length l1 = 504" "length l2 = 504"
    using test_qcow2_layout [of sd] by blast
  have "take 8 (drop 512 (test_qcow2 sd)) = to_be 8 L2_OFFSET"
    by (simp add: t length_test_header)
  then show "be_u64_table (take 8 (drop 512 (test_qcow2 sd))) = [1536]"
    by (simp add: be_u64_table.simps L2_OFFSET_def)
  have "take 8 (drop 1536 (test_qcow2 sd)) = to_be 8 DATA_OFFSET"
    by (simp add: t length_test_header l)
  then show "from_be (take 8 (drop 1536 (test_qcow2 sd))) = (2048 :: u64)"
    by (simp add: DATA_OFFSET_def)
  show "drop 2048 (test_qcow2 sd) = padded_sector sd"
    by (simp add: t length_test_header l)
qed

lemma test_guest_byte:
  assumes "off < 512"
  shows "guest_byte inflate 9 [1536] (test_qcow2 sd) off = Some (padded_sector sd ! off)"
proof -
  have "padded_sector sd ! off = test_qcow2 sd ! (2048 + off)"
    using assms length_test_qcow2 [of sd] by (simp flip: test_tables(3))
  moreover have "off div 32768 = 0" "off div 512 = 0" using assms by simp_all
  ultimately show ?thesis
    using assms by (simp add: guest_byte_def guest_ref_def guest_l1_def Let_def length_test_qcow2
        test_tables(2) entry_meaning_def cluster_byte_def get_at_def)
qed

section \<open>Images of one cluster\<close>

text \<open>
  An image with the header fields of the builder whose one cluster reads as \<open>disk\<close>, and a reader of
  such an image.
\<close>

definition one_cluster :: "(u8 list \<Rightarrow> u8 list option) \<Rightarrow> u8 list \<Rightarrow> u8 list \<Rightarrow> bool" where
  "one_cluster inflate disk img \<longleftrightarrow>
     header_parse (take 104 img) = Ok test_fields \<and> 520 \<le> length img \<and> length disk = 512 \<and>
     (\<forall>off\<in>set [0..<512].
        guest_byte inflate 9 (be_u64_table (take 8 (drop 512 img))) img off = Some (disk ! off))"

definition one_cluster_reader ::
  "(u8 list \<Rightarrow> u8 list option) \<Rightarrow> ('b \<Rightarrow> bool) \<Rightarrow> ('b \<Rightarrow> u8 list) \<Rightarrow> u8 list
     \<Rightarrow> 'b qcow2_reader \<Rightarrow> bool" where
  "one_cluster_reader inflate ok content disk r \<longleftrightarrow>
     whole_disk inflate ok content r \<and> reader_disk inflate content r = disk \<and>
     virtual_disk_size r = 512"

lemma one_cluster_readable:
  assumes "one_cluster inflate disk img"
  shows "readable_image inflate test_fields img" and "image_disk inflate test_fields img = disk"
proof -
  show "readable_image inflate test_fields img"
    using assms by (auto simp: one_cluster_def readable_image_def image_l1_def test_fields_def
        guest_complete_def isize_limit_def)
  show "image_disk inflate test_fields img = disk"
    using assms by (intro nth_equalityI) (simp_all add: one_cluster_def image_disk_def image_l1_def
        test_fields_def guest_disk_def)
qed

lemma one_cluster_opens:
  assumes "byte_source V ok content pos" and "ok b" and "pos b = 0"
    and "one_cluster inflate disk (content b)"
  shows "\<exists>r. open_reader V b = Ok r \<and> rpos r = 0 \<and> one_cluster_reader inflate ok content disk r"
  using readable_image_opens [OF assms(1-3) one_cluster_readable(1) [OF assms(4)]]
    one_cluster_readable(2) [OF assms(4)]
  by (auto simp: one_cluster_reader_def test_fields_def)

context reader_over
begin

lemma one_cluster_same:
  assumes "one_cluster_reader inflate inv content disk r" and "whole_disk inflate inv content t"
    and "reader_disk inflate content t = reader_disk inflate content r"
  shows "one_cluster_reader inflate inv content disk t"
proof -
  have "virtual_disk_size t = virtual_disk_size r"
    using arg_cong [OF assms(3), of length] by (simp add: word_unat_eq_iff)
  with assms show ?thesis by (simp add: one_cluster_reader_def)
qed

lemma one_cluster_window:
  assumes r: "one_cluster_reader inflate inv content disk r"
  shows "\<exists>t. read_window (reader_ops V inflate) n r = (Ok (take n (drop (unat (rpos r)) disk)), t)"
  using byte_source.read_window_spec [OF guest_source, of r n] r by (auto simp: one_cluster_reader_def)

lemma one_cluster_read:
  assumes r: "one_cluster_reader inflate inv content disk r" and n: "unat (rpos r) + n \<le> 512"
  shows "\<exists>t. read_exact (reader_ops V inflate) n r = (Ok (take n (drop (unat (rpos r)) disk)), t) \<and>
    one_cluster_reader inflate inv content disk t"
proof -
  have w: "whole_disk inflate inv content r" and d: "reader_disk inflate content r = disk"
    and l: "length disk = 512"
    using r length_reader_disk [of inflate content r] by (auto simp: one_cluster_reader_def)
  from byte_source.read_exact_spec [OF guest_source w, of n] n obtain t where
    "read_exact (reader_ops V inflate) n r = (Ok (take n (drop (unat (rpos r)) disk)), t)"
    "whole_disk inflate inv content t" "reader_disk inflate content t = reader_disk inflate content r"
    by (auto simp: d l)
  with one_cluster_same [OF r] show ?thesis by blast
qed

lemma one_cluster_seek:
  assumes r: "one_cluster_reader inflate inv content disk r" and "unat off < isize_limit"
  shows "reader_seek (SeekStart off) r = (Ok off, r\<lparr>rpos := off\<rparr>)"
    and "one_cluster_reader inflate inv content disk (r\<lparr>rpos := off\<rparr>)"
  using assms by (auto simp: reader_seek_start one_cluster_reader_def whole_disk_def reader_disk_def
      reader_inv_def reader_wf_def reader_cb_def)

end

text \<open>The image of the builder, and what patching its tables makes of it.\<close>

lemma test_one_cluster: "one_cluster inflate (padded_sector sd) (test_qcow2 sd)"
  by (simp add: one_cluster_def test_parse length_test_qcow2 test_tables(1) test_guest_byte)
     (simp add: padded_sector_def)

lemma test_l2_patched:
  assumes "entry_meaning 9 e = ZeroCluster \<or> entry_meaning 9 e = Unallocated"
  shows "one_cluster inflate (replicate 512 0) (put (test_qcow2 sd) 1536 (to_be 8 e))"
proof -
  let ?img = "put (test_qcow2 sd) 1536 (to_be 8 e)"
  have l: "length ?img = 2560" by (simp add: length_test_qcow2)
  have "take 8 (drop 512 ?img) = take 8 (drop 512 (test_qcow2 sd))"
    by (rule region_put_other) (simp_all add: length_test_qcow2)
  then have l1: "be_u64_table (take 8 (drop 512 ?img)) = [1536]" by (simp add: test_tables(1))
  have "take 8 (drop 1536 ?img) = to_be 8 e" by (simp add: put_def length_test_qcow2)
  then have "guest_byte inflate 9 [1536] ?img off = Some 0" if "off < 512" for off
    using that assms l by (auto simp: guest_byte_def guest_ref_def guest_l1_def Let_def cluster_byte_def)
  with l l1 show ?thesis
    by (simp add: one_cluster_def put_take length_test_qcow2 test_parse)
qed

lemma test_l1_cleared: "one_cluster inflate (replicate 512 0) (put (test_qcow2 sd) 512 (to_be 8 (0 :: u64)))"
proof -
  let ?img = "put (test_qcow2 sd) 512 (to_be 8 (0 :: u64))"
  have l: "length ?img = 2560" by (simp add: length_test_qcow2)
  have "take 8 (drop 512 ?img) = to_be 8 (0 :: u64)" by (simp add: put_def length_test_qcow2)
  then have l1: "be_u64_table (take 8 (drop 512 ?img)) = [0]" using be_u64_table_first [of 0 0] by simp
  have "guest_byte inflate 9 [0] ?img off = Some 0" for off
    by (auto simp: guest_byte_def guest_ref_def guest_l1_def Let_def cluster_byte_def)
  with l l1 show ?thesis
    by (simp add: one_cluster_def put_take length_test_qcow2 test_parse)
qed

section \<open>Properties\<close>

text \<open>
  C3. Round trip through the builder of testutil: whatever the sector, the image it builds opens
  over every byte source, has a disk of one cluster, and reads back as the sector, cut or
  zero-padded to the cluster.
\<close>

theorem test_image_roundtrip:
  assumes "byte_source V ok content pos" and "ok b" and "pos b = 0" and "content b = test_qcow2 sd"
  shows "\<exists>r t. open_reader V b = Ok r \<and> virtual_disk_size r = 512 \<and>
    read_window (reader_ops V inflate) 512 r = (Ok (padded_sector sd), t)"
proof -
  from one_cluster_opens [OF assms(1-3)] assms(4) test_one_cluster obtain r where
    "open_reader V b = Ok r" and p: "rpos r = 0"
    and r: "one_cluster_reader inflate ok content (padded_sector sd) r"
    by fastforce
  with reader_over.one_cluster_window [OF reader_over.intro [OF assms(1)] r, of 512] show ?thesis
    by (auto simp: one_cluster_reader_def padded_sector_def)
qed

theorem test_image_roundtrip_witness:
  "\<exists>r t. open_reader (one_byte_ops cursor_ops) (medium_of (test_qcow2 [1, 2, 3])) = Ok r \<and>
    read_window (reader_ops (one_byte_ops cursor_ops) no_inflate) 512 r
      = (Ok ([1, 2, 3] @ replicate 509 0), t)"
proof -
  have "medium_ok (medium_of (test_qcow2 [1, 2, 3]))"
    by (simp add: medium_ok_def medium_of_def length_test_qcow2 isize_limit_def)
  moreover have "padded_sector [1, 2, 3] = [1, 2, 3] @ replicate 509 0"
    by (simp add: padded_sector_def)
  ultimately show ?thesis
    using test_image_roundtrip [OF one_byte_source.byte_source_axioms, of _ "[1, 2, 3]" no_inflate]
    by fastforce
qed

end
