(* ===== verification/Consumer.thy ===== *)
theory Consumer
  imports Guest
begin

text \<open>
  The callers of a reader: what a read may change (\<open>reader_read_frame\<close>), the shape a reader keeps
  through its life (\<open>reader_typed\<close>), and the loop \<open>read_to_end\<close> of the standard library, which
  stops only when a read returns nothing or fails.  Nothing in that loop bounds the number of
  calls: that it ends on every image is a property of the reader.
\<close>

section \<open>What a read may change\<close>

definition same_geometry :: "'b qcow2_reader \<Rightarrow> 'b qcow2_reader \<Rightarrow> bool" where
  "same_geometry r t \<longleftrightarrow>
     virtual_disk_size t = virtual_disk_size r \<and> cluster_size t = cluster_size r \<and>
     l1_table t = l1_table r \<and> l2_bits t = l2_bits r \<and> l2_mask t = l2_mask r"

lemma same_geometry_refl [simp]: "same_geometry r r"
  by (simp add: same_geometry_def)

lemma same_geometry_trans: "same_geometry r s \<Longrightarrow> same_geometry s t \<Longrightarrow> same_geometry r t"
  by (simp add: same_geometry_def)

lemma same_reader_geometry: "same_reader ok r s \<Longrightarrow> same_geometry r s"
  by (simp add: same_geometry_def same_reader_fields)

lemma same_geometry_rpos [simp]: "same_geometry r (s\<lparr>rpos := p\<rparr>) \<longleftrightarrow> same_geometry r s"
  by (simp add: same_geometry_def)

context read_seek
begin

text \<open>
  Whatever the backing does, a read keeps the geometry; it moves the position by what it returned,
  never past the end of the disk, and not at all when it fails.
\<close>

lemma reader_read_frame:
  assumes "reader_inv inv r" and eq: "reader_read V inflate n r = (x, t)"
  shows "same_geometry r t"
    and "case x of
        Ok bs \<Rightarrow> length bs \<le> unat (virtual_disk_size r) - unat (rpos r) \<and>
          unat (rpos t) = unat (rpos r) + length bs
      | _ \<Rightarrow> rpos t = rpos r"
proof -
  have wf: "reader_wf r" and i: "inv (backing r)" using assms(1) by (auto simp: reader_inv_def)
  have "same_geometry r t \<and> (case x of
        Ok bs \<Rightarrow> length bs \<le> unat (virtual_disk_size r) - unat (rpos r) \<and>
          unat (rpos t) = unat (rpos r) + length bs
      | _ \<Rightarrow> rpos t = rpos r)"
  proof (cases "virtual_disk_size r \<le> rpos r \<or> n = 0")
    case True
    with eq show ?thesis by (auto simp: reader_read_end)
  next
    case False
    then have lt: "rpos r < virtual_disk_size r" and "0 < n" by auto
    have safe: "op_safe (same_reader inv r) (st_bind (cluster_ref_for V (rpos r))
        (read_cluster V inflate (piece_off r) (piece_len r n))) (\<lambda>bs. length bs \<le> piece_len r n)"
      using wf piece_len_bounds(3) [of r n]
      by (intro op_safe_bind [OF cluster_ref_for_safe] read_cluster_safe)
    note d = op_safeD [OF safe same_reader_refl [of inv, OF i]]
    from eq [unfolded reader_read_eq [OF wf lt \<open>0 < n\<close>]] show ?thesis
    proof (cases rule: st_bind_cases)
      case (ok bs s)
      from d(3) [OF ok(1)] have l: "length bs \<le> piece_len r n" by blast
      from d(2) [OF ok(1)] have s: "same_reader inv r s" .
      note f = same_reader_fields [OF s]
      have "unat (rpos s) + length bs < 2 ^ 64"
        using l piece_len_bounds(2) [of r n] lt
          unsigned_less [of "virtual_disk_size r", where 'a = nat]
        by (simp add: f word_less_nat_alt)
      note a = advance_Ok [OF this]
      from a(1) ok(2) have "x = Ok bs" and "t = s\<lparr>rpos := rpos s + of_nat (length bs)\<rparr>"
        by (auto simp: st_bind_def st_simps)
      with a(2) l f(6) piece_len_bounds(2) [of r n] same_reader_geometry [OF s] show ?thesis
        by simp
    next
      case (err e)
      from d(2) [OF err(1)] have s: "same_reader inv r t" .
      with err(2) same_reader_geometry [OF s] same_reader_fields(6) [OF s] show ?thesis by simp
    next
      case panic
      with d(1) show ?thesis by blast
    qed
  qed
  then show "same_geometry r t"
    and "case x of
        Ok bs \<Rightarrow> length bs \<le> unat (virtual_disk_size r) - unat (rpos r) \<and>
          unat (rpos t) = unat (rpos r) + length bs
      | _ \<Rightarrow> rpos t = rpos r"
    by blast+
qed

end

lemma reader_seek_frame:
  assumes "reader_seek target r = (x, t)"
  shows "same_geometry r t"
    and "rpos t = rpos r \<or> unat (rpos t) < isize_limit"
proof -
  have "same_geometry r t \<and> (rpos t = rpos r \<or> unat (rpos t) < isize_limit)"
  proof (cases "reader_seek_target target r :: (io_error, i64) outcome")
    case (Ok p)
    with assms show ?thesis
      by (auto simp: reader_seek_def st_simps sint_negative_iff not_le split: if_splits)
  qed (use assms in \<open>auto simp: reader_seek_def st_simps\<close>)
  then show "same_geometry r t" and "rpos t = rpos r \<or> unat (rpos t) < isize_limit" by blast+
qed

section \<open>The type of a reader\<close>

text \<open>
  The shape of every reader a program can hold: the geometry of the image it was opened on, in the
  bounds of the format, and a position that a signed 64-bit offset can name or that lies in the
  disk.
\<close>

definition reader_typed :: "'b qcow2_reader \<Rightarrow> 'b qcow2_reader \<Rightarrow> bool" where
  "reader_typed r0 r \<longleftrightarrow> reader_wf r \<and> same_geometry r0 r \<and>
     (unat (rpos r) < isize_limit \<or> rpos r \<le> virtual_disk_size r)"

context read_seek
begin

lemma reader_reach_typed:
  "reader_reach V inflate b r \<Longrightarrow> inv b \<Longrightarrow> \<exists>r0. open_reader V b = Ok r0 \<and> reader_typed r0 r"
proof (induction rule: reader_reach.induct)
  case (opened r)
  with from_backing_safe [of b "Ok r" "snd (from_backing V b)"] show ?case
    by (simp add: open_reader_def prod_eq_iff reader_typed_def reader_inv_def)
next
  case (after_read r n x t)
  then obtain r0 where r0: "open_reader V b = Ok r0" "reader_typed r0 r" by blast
  have i: "reader_inv inv r" using reader_reach_inv after_read.hyps(1) after_read.prems by blast
  note f = reader_read_frame [OF i after_read.hyps(2)]
  have "reader_wf t" using op_safeD(2) [OF reader_read_safe i after_read.hyps(2)]
    by (simp add: reader_inv_def)
  moreover have "unat (rpos t) < isize_limit \<or> rpos t \<le> virtual_disk_size t"
  proof (cases x)
    case (Ok bs)
    with f r0(2) show ?thesis
      by (cases "bs = []") (auto simp: reader_typed_def same_geometry_def word_le_nat_alt)
  qed (use f r0(2) in \<open>auto simp: reader_typed_def same_geometry_def\<close>)
  ultimately show ?case
    using r0 same_geometry_trans [OF _ f(1)] by (auto simp: reader_typed_def)
next
  case (after_seek r target x t)
  then obtain r0 where r0: "open_reader V b = Ok r0" "reader_typed r0 r" by blast
  have i: "reader_inv inv r" using reader_reach_inv after_seek.hyps(1) after_seek.prems by blast
  note f = reader_seek_frame [OF after_seek.hyps(2)]
  have "reader_wf t" using reader_seek_safe [OF i after_seek.hyps(2)] by (simp add: reader_inv_def)
  with f r0 same_geometry_trans [OF _ f(1)] show ?case
    by (auto simp: reader_typed_def same_geometry_def)
qed

end

section \<open>Reading to the end\<close>

text \<open>
  \<open>Read::read_to_end\<close>, with the buffer sizes it picks as a parameter (the size of the call number
  \<open>k\<close>, at least one byte).  The recursion is over the calls, and nothing bounds it: the result is
  \<open>None\<close> when the source never ends.
\<close>

partial_function (option) read_to_end ::
  "'b read_seek_ops \<Rightarrow> (nat \<Rightarrow> nat) \<Rightarrow> nat \<Rightarrow> 'b \<Rightarrow> ((io_error, u8 list) outcome \<times> 'b) option" where
  "read_to_end V sizes k s =
     (case dev_read V (Suc (sizes k)) s of
        (Ok bs, s') \<Rightarrow>
          if bs = [] then Some (Ok [], s')
          else Option.bind (read_to_end V sizes (Suc k) s') (\<lambda>(x, t).
                 Some (and_then x (\<lambda>cs. Ok (bs @ cs)), t))
      | (Err e, s') \<Rightarrow> Some (Err e, s')
      | (Panic, s') \<Rightarrow> Some (Panic, s'))"

lemma less_remaining:
  assumes "bs \<noteq> []" and "p < n"
  shows "n - (p + length bs) < n - p"
  using assms by (cases bs) auto

lemmas read_to_end_step = read_to_end.simps [of V sizes k s] for V sizes k s

context any_reader
begin

lemma read_to_end_total:
  "reader_inv inv r \<Longrightarrow> \<exists>x t. read_to_end (reader_ops V inflate) sizes k r = Some (x, t) \<and>
     x \<noteq> Panic \<and> reader_inv inv t \<and> same_geometry r t \<and>
     (\<forall>bs. x = Ok bs \<longrightarrow> length bs \<le> unat (virtual_disk_size r) - unat (rpos r))"
proof (induction "unat (virtual_disk_size r) - unat (rpos r)" arbitrary: r k rule: less_induct)
  case less
  obtain x s where e: "reader_read V inflate (Suc (sizes k)) r = (x, s)" by fastforce
  note safe = op_safeD [OF reader_read_safe less.prems e]
  note f = reader_read_frame [OF less.prems e]
  have e': "dev_read (reader_ops V inflate) (Suc (sizes k)) r = (x, s)"
    using e by (simp add: reader_ops_def)
  show ?case
  proof (cases x)
    case (Ok bs)
    show ?thesis
    proof (cases "bs = []")
      case True
      with Ok e' safe f show ?thesis by (simp add: read_to_end_step)
    next
      case False
      have p: "length bs \<le> unat (virtual_disk_size r) - unat (rpos r)"
        and q: "unat (rpos s) = unat (rpos r) + length bs" and v: "virtual_disk_size s = virtual_disk_size r"
        using f Ok by (simp_all add: same_geometry_def)
      have "unat (rpos r) < unat (virtual_disk_size r)" using False p by (cases bs) auto
      from less_remaining [OF False this] q v
      have lt: "unat (virtual_disk_size s) - unat (rpos s) < unat (virtual_disk_size r) - unat (rpos r)"
        by simp
      from less.hyps [OF lt safe(2), of "Suc k"] obtain y t where
        t: "read_to_end (reader_ops V inflate) sizes (Suc k) s = Some (y, t)" "y \<noteq> Panic"
          "reader_inv inv t" "same_geometry s t"
          "\<forall>cs. y = Ok cs \<longrightarrow> length cs \<le> unat (virtual_disk_size s) - unat (rpos s)"
        by blast
      have "read_to_end (reader_ops V inflate) sizes k r
          = Some (and_then y (\<lambda>cs. Ok (bs @ cs)), t)"
        using t(1) False Ok e' by (simp add: read_to_end_step)
      moreover have "length cs + length bs \<le> unat (virtual_disk_size r) - unat (rpos r)"
        if "y = Ok cs" for cs
        using t(5) that p q v by fastforce
      ultimately show ?thesis
        using t(2,3) same_geometry_trans [OF f(1) t(4)]
        by (auto simp: and_then_Panic_iff and_then_Ok_iff)
    qed
  next
    case (Err e)
    with e' safe f show ?thesis by (simp add: read_to_end_step)
  next
    case Panic
    with safe(1) show ?thesis by blast
  qed
qed

end

context byte_source
begin

lemma read_to_end_content:
  "inv b \<Longrightarrow> \<exists>t. read_to_end V sizes k b = Some (Ok (drop (pos b) (content b)), t) \<and> inv t \<and>
     content t = content b"
proof (induction "length (content b) - pos b" arbitrary: b k rule: less_induct)
  case less
  from read_pieceE [OF less.prems, of "Suc (sizes k)"] obtain bs s where
    r: "dev_read V (Suc (sizes k)) b = (Ok bs, s)" "inv s"
      "bs = take (length bs) (drop (pos b) (content b))"
      "pos b < length (content b) \<Longrightarrow> bs \<noteq> []" "content s = content b"
      "pos s = pos b + length bs"
    by (metis zero_less_Suc)
  show ?case
  proof (cases "bs = []")
    case True
    with r(4) have "drop (pos b) (content b) = []" by (metis drop_eq_Nil not_le)
    with True r show ?thesis by (simp add: read_to_end_step)
  next
    case False
    then have "pos b < length (content b)" using r(3) by (metis drop_eq_Nil not_le take_Nil)
    from less_remaining [OF False this] r(5,6)
    have lt: "length (content s) - pos s < length (content b) - pos b" by simp
    from less.hyps [OF lt r(2), of "Suc k"] obtain t where
      t: "read_to_end V sizes (Suc k) s = Some (Ok (drop (pos s) (content s)), t)" "inv t"
        "content t = content s" by blast
    have "bs @ drop (pos s) (content s) = drop (pos b) (content b)"
      using r(3,5,6) by (metis append_take_drop_id drop_drop add.commute)
    with t r(1,5) False show ?thesis by (simp add: read_to_end_step)
  qed
qed

end

section \<open>Properties\<close>

text \<open>
  C12. Every reader a program can hold is well formed: after any sequence of reads and seeks, failed
  ones included, it has the geometry and the L1 table of the image it was opened on, the derived
  fields agree with the cluster size, and its position is a non-negative i64 or lies in the
  disk.
\<close>

theorem reader_keeps_its_type:
  assumes "read_seek V ok" and "ok b" and "reader_reach V inflate b r"
  shows "\<exists>r0. open_reader V b = Ok r0 \<and> reader_typed r0 r"
  using read_seek.reader_reach_typed [OF assms(1,3,2)] .

theorem reader_keeps_its_type_witness:
  "\<exists>r t x. open_reader file_ops (medium_of sample_image) = Ok r \<and>
    reader_read file_ops no_inflate 3 r = (x, t) \<and> reader_typed r t"
proof -
  from sample_open [OF file_bytes.byte_source_axioms] obtain r where
    r: "open_reader file_ops (medium_of sample_image) = Ok r" by blast
  let ?t = "snd (reader_read file_ops no_inflate 3 r)"
  have e: "reader_read file_ops no_inflate 3 r = (fst (reader_read file_ops no_inflate 3 r), ?t)"
    by simp
  from reader_keeps_its_type [OF file_bytes.read_seek_axioms sample_medium
      after_read [OF opened [OF r] e]] r e
  show ?thesis by fastforce
qed

text \<open>
  C9. Reading to the end of a reader terminates on every image and over every backing, crafted
  tables and failing devices included: the loop, which nothing but an empty read or an error
  stops, makes finitely many calls whatever buffer sizes it uses, does not panic, and collects
  no more than what is left of the virtual disk.
\<close>

theorem read_to_end_terminates:
  assumes "read_seek V ok" and "ok b" and "reader_reach V inflate b r"
  shows "\<exists>x t. read_to_end (reader_ops V inflate) sizes k r = Some (x, t) \<and> x \<noteq> Panic \<and>
    (\<forall>bs. x = Ok bs \<longrightarrow> length bs \<le> unat (virtual_disk_size r) - unat (rpos r))"
  using any_reader.read_to_end_total [OF any_reader.intro [OF assms(1)]
      read_seek.reader_reach_inv [OF assms(1,3,2)]]
  by blast

theorem read_to_end_terminates_witness:
  "\<exists>r. open_reader file_ops (medium_of sample_image) = Ok r \<and>
    read_to_end (reader_ops file_ops no_inflate) (\<lambda>k. k) 0 r \<noteq> None"
proof -
  from sample_open [OF file_bytes.byte_source_axioms] obtain r where
    r: "open_reader file_ops (medium_of sample_image) = Ok r" by blast
  with read_to_end_terminates [OF file_bytes.read_seek_axioms sample_medium opened [OF r],
      of no_inflate "\<lambda>k. k" 0]
  show ?thesis by auto
qed

text \<open>
  C24. On a complete image every read before the end makes progress, so reading to the end gets
  there: it returns the whole rest of the guest disk, byte for byte, for every choice of buffer
  sizes.
\<close>

theorem read_to_end_reads_disk:
  assumes "byte_source V ok content pos" and "whole_disk inflate ok content r"
  shows "\<exists>t. read_to_end (reader_ops V inflate) sizes k r =
      Some (Ok (drop (unat (rpos r)) (reader_disk inflate content r)), t) \<and>
    whole_disk inflate ok content t"
  using byte_source.read_to_end_content [OF reader_over.guest_source [OF reader_over.intro [OF assms(1)]]
      assms(2), of sizes k]
  by blast

theorem read_to_end_reads_disk_witness:
  "\<exists>t. read_to_end (reader_ops (one_byte_ops cursor_ops) no_inflate) (\<lambda>_. 1) 0 sample_reader
    = Some (Ok [1, 2, 3, 4], t)"
  using read_to_end_reads_disk [OF one_byte_source.byte_source_axioms sample_whole, of "\<lambda>_. 1" 0]
  by (simp add: sample_reader_disk sample_reader_fields) blast

end
