(* ===== verification/Testkit.thy ===== *)
theory Testkit
  imports Consumer
begin

text \<open>
  What the fuzz targets and the test modules are written with: temporary files, a result that is
  dropped, and the assertions on results.
\<close>

section \<open>Files\<close>

text \<open>
  A temporary file that holds the bytes.  The \<open>unwrap\<close> on its creation and on the write concern
  the machine the test runs on, not the library.
\<close>

definition tmp_file :: "u8 list \<Rightarrow> unit file_system" where
  "tmp_file data = (\<lambda>_. Inr data)"

text \<open>\<open>Vec::resize\<close>\<close>

definition resize :: "'a list \<Rightarrow> nat \<Rightarrow> 'a \<Rightarrow> 'a list" where
  "resize xs n x = take n xs @ replicate (n - length xs) x"

section \<open>Assertions\<close>

text \<open>\<open>let _ = ...\<close>: the result is dropped, a panic is not.\<close>

fun ignore_result :: "('e, 'a) outcome \<Rightarrow> (unit, unit) outcome" where
  "ignore_result Panic = Panic"
| "ignore_result (Ok a) = Ok ()"
| "ignore_result (Err e) = Ok ()"

text \<open>
  \<open>expect\<close>, \<open>unwrap\<close> and \<open>assert!(... .is_err())\<close>: the test goes on with the value or fails.  The
  same for a call on a state, and for \<open>read_to_end\<close>.
\<close>

definition expect :: "('e, 'a) outcome \<Rightarrow> ('a \<Rightarrow> bool) \<Rightarrow> bool" where
  "expect x k = (case x of Ok a \<Rightarrow> k a | _ \<Rightarrow> False)"

fun is_err :: "('e, 'a) outcome \<Rightarrow> bool" where
  "is_err (Err e) = True"
| "is_err x = False"

definition expect_op :: "('s, 'e, 'a) op \<Rightarrow> 's \<Rightarrow> ('a \<Rightarrow> 's \<Rightarrow> bool) \<Rightarrow> bool" where
  "expect_op m s k = (case m s of (Ok a, t) \<Rightarrow> k a t | _ \<Rightarrow> False)"

definition expect_op_err :: "('s, 'e, 'a) op \<Rightarrow> 's \<Rightarrow> ('s \<Rightarrow> bool) \<Rightarrow> bool" where
  "expect_op_err m s k = (case m s of (Err e, t) \<Rightarrow> k t | _ \<Rightarrow> False)"

definition expect_end :: "'b read_seek_ops \<Rightarrow> (nat \<Rightarrow> nat) \<Rightarrow> 'b \<Rightarrow> (u8 list \<Rightarrow> 'b \<Rightarrow> bool) \<Rightarrow> bool" where
  "expect_end V sizes s k = (case read_to_end V sizes 0 s of Some (Ok bs, t) \<Rightarrow> k bs t | _ \<Rightarrow> False)"

lemma expect_Ok [simp]: "expect (Ok a) k = k a"
  by (simp add: expect_def)

lemma expect_op_Ok: "m s = (Ok a, t) \<Longrightarrow> expect_op m s k = k a t"
  by (simp add: expect_op_def)

lemma expect_op_err_Err: "m s = (Err e, t) \<Longrightarrow> expect_op_err m s k = k t"
  by (simp add: expect_op_err_def)

lemma expect_end_Ok: "read_to_end V sizes 0 s = Some (Ok bs, t) \<Longrightarrow> expect_end V sizes s k = k bs t"
  by (simp add: expect_end_def)

lemma reader_open_tmp: "reader_open (tmp_file data) () = open_reader file_ops (medium_of data)"
  by (simp add: reader_open_def tmp_file_def file_open_def)

end
