(* ===== verification/Fuzz.thy ===== *)
theory Fuzz
  imports Testkit Forensic
begin

text \<open>
  The fuzz targets (fuzz/fuzz_targets): each writes arbitrary bytes to a temporary file and calls
  the library on its path.  Their common invariant, that no call panics, is stated over the whole
  composition: file, parser, reader, loop and auditor.
\<close>

section \<open>The targets\<close>

definition fuzz_open :: "u8 list \<Rightarrow> (unit, unit) outcome" where
  "fuzz_open data = ignore_result (reader_open (tmp_file data) ())"

definition fuzz_inspect :: "u8 list \<Rightarrow> (unit, unit) outcome" where
  "fuzz_inspect data = ignore_result (inspect (tmp_file data) ())"

definition fuzz_forensic :: "u8 list \<Rightarrow> (unit, unit) outcome" where
  "fuzz_forensic data = ignore_result (audit_path (tmp_file data) ())"

text \<open>The bounded loop of \<open>fuzz_read\<close>: reads into a buffer of 4096 bytes until nothing comes.\<close>

fun fuzz_rounds :: "'b read_seek_ops \<Rightarrow> nat \<Rightarrow> 'b \<Rightarrow> (unit, unit) outcome" where
  "fuzz_rounds V 0 s = Ok ()"
| "fuzz_rounds V (Suc k) s =
    (case dev_read V 4096 s of
       (Panic, s') \<Rightarrow> Panic
     | (Err e, s') \<Rightarrow> Ok ()
     | (Ok bs, s') \<Rightarrow> if bs = [] then Ok () else fuzz_rounds V k s')"

definition fuzz_read :: "(u8 list \<Rightarrow> u8 list option) \<Rightarrow> u8 list \<Rightarrow> (unit, unit) outcome" where
  "fuzz_read inflate data =
     (case reader_open (tmp_file data) () of
        Panic \<Rightarrow> Panic
      | Err e \<Rightarrow> Ok ()
      | Ok r \<Rightarrow> fuzz_rounds (reader_ops file_ops inflate) 256 r)"

section \<open>None of them panics\<close>

lemma ignore_result_Ok: "ignore_result m = Ok () \<longleftrightarrow> m \<noteq> Panic"
  by (cases m) auto

context read_seek
begin

lemma fuzz_rounds_Ok: "inv s \<Longrightarrow> fuzz_rounds V k s = Ok ()"
proof (induction k arbitrary: s)
  case (Suc k)
  obtain x t where e: "dev_read V 4096 s = (x, t)" by fastforce
  from op_safeD [OF read_safe Suc.prems e] Suc.IH [of t] show ?case
    by (cases x) (simp_all add: e)
qed simp

end

lemma fuzz_open_reader:
  assumes "length data < isize_limit"
  shows "reader_open (tmp_file data) () \<noteq> Panic"
    and "reader_open (tmp_file data) () = Ok r \<Longrightarrow> reader_inv medium_ok r"
proof -
  have "medium_ok (medium_of data)" using assms by (simp add: medium_ok_def)
  from file_bytes.from_backing_safe [OF this, of "open_reader file_ops (medium_of data)"
      "snd (from_backing file_ops (medium_of data))"]
  show "reader_open (tmp_file data) () \<noteq> Panic"
    and "reader_open (tmp_file data) () = Ok r \<Longrightarrow> reader_inv medium_ok r"
    by (auto simp: reader_open_def tmp_file_def file_open_def open_reader_def prod_eq_iff)
qed

section \<open>Properties\<close>

text \<open>
  C8. The invariant of the four fuzz targets, for every input: on any bytes a file can hold, opening
  it, reading it in 256 rounds, inspecting it and auditing it finish without a panic, whatever
  the decoder makes of compressed clusters.
\<close>

theorem fuzz_targets_never_panic:
  assumes "length data < isize_limit"
  shows "fuzz_open data = Ok () \<and> fuzz_read inflate data = Ok () \<and>
    fuzz_inspect data = Ok () \<and> fuzz_forensic data = Ok ()"
proof (intro conjI)
  note f = tmp_file_def [of data]
  note total = fuzz_open_reader [OF assms]
  from total(1) show "fuzz_open data = Ok ()"
    by (simp add: fuzz_open_def ignore_result_Ok)
  show "fuzz_read inflate data = Ok ()"
    using total file_reader.reader.fuzz_rounds_Ok [of _ inflate 256]
    by (cases "reader_open (tmp_file data) ()") (auto simp: fuzz_read_def)
  show "fuzz_inspect data = Ok ()"
    using inspect_bytes [where fs = "tmp_file data" and path = "()" and bs = data] assms
      info_parse_no_panic [of "take 8192 data"]
    by (simp add: fuzz_inspect_def ignore_result_Ok f)
  show "fuzz_forensic data = Ok ()"
    using audit_path_total [where fs = "tmp_file data" and path = "()" and bs = data] assms
    by (simp add: fuzz_forensic_def ignore_result_Ok f)
qed

theorem fuzz_targets_never_panic_witness:
  "fuzz_read no_inflate sample_image = Ok () \<and> fuzz_forensic [0x51, 0x46, 0x49] = Ok ()"
  using fuzz_targets_never_panic [of sample_image no_inflate]
    fuzz_targets_never_panic [of "[0x51, 0x46, 0x49]" no_inflate] sample_length
  by (simp add: isize_limit_def)

end
