(* ===== verification/Header_Fixture.thy ===== *)
theory Header_Fixture
  imports Header
begin

text \<open>
  The header builder of core/src/header.rs (module \<open>tests\<close>): a header of version 2 or 3 with an
  extension area and a backing file name, and the round trip through \<open>Qcow2Info::parse\<close>.
\<close>

section \<open>The builder\<close>

text \<open>\<open>ext\<close> is \<^const>\<open>ext_encode\<close>; this is \<open>build\<close>.\<close>

definition ext_start :: "u32 \<Rightarrow> u32 \<Rightarrow> nat" where
  "ext_start version header_len = (if version = 3 then unat header_len else MIN_HEADER_SIZE)"

definition header_build ::
  "u32 \<Rightarrow> u64 \<Rightarrow> u8 list \<Rightarrow> u32 \<Rightarrow> u8 list \<Rightarrow> u8 list" where
  "header_build version backing_off backing_name header_len extensions =
    (let cap = max (max (unat header_len) (unat backing_off + length backing_name)) 112
           + length extensions + 64;
         d = replicate cap 0;
         d = put d 0 (to_be 4 MAGIC);
         d = put d 4 (to_be 4 version);
         d = put d 8 (to_be 8 backing_off);
         d = put d 16 (to_be 4 (of_nat (length backing_name) :: u32));
         d = put d 20 (to_be 4 (16 :: u32));
         d = (if version = 3 then put d 100 (to_be 4 header_len) else d);
         d = put d (ext_start version header_len) extensions
     in if backing_off \<noteq> 0 then put d (unat backing_off) backing_name else d)"

section \<open>The layout of a built header\<close>

definition header_writes ::
  "u32 \<Rightarrow> u64 \<Rightarrow> u8 list \<Rightarrow> u32 \<Rightarrow> u8 list \<Rightarrow> (nat \<times> u8 list) list" where
  "header_writes version backing_off backing_name header_len extensions =
    [(0, to_be 4 MAGIC), (4, to_be 4 version), (8, to_be 8 backing_off),
     (16, to_be 4 (of_nat (length backing_name) :: u32)), (20, to_be 4 (16 :: u32))]
    @ (if version = 3 then [(100, to_be 4 header_len)] else [])
    @ [(ext_start version header_len, extensions)]
    @ (if backing_off \<noteq> 0 then [(unat backing_off, backing_name)] else [])"

definition header_cap :: "u64 \<Rightarrow> u8 list \<Rightarrow> u32 \<Rightarrow> u8 list \<Rightarrow> nat" where
  "header_cap backing_off backing_name header_len extensions =
     max (max (unat header_len) (unat backing_off + length backing_name)) 112
       + length extensions + 64"

lemma header_build_writes:
  "header_build v off name hl exts = writes (header_writes v off name hl exts) (replicate (header_cap off name hl exts) 0)"
  by (cases "v = 3"; cases "off = 0")
     (simp_all only: header_build_def header_writes_def header_cap_def Let_def writes_def if_True if_False
       simp_thms append.simps foldl.simps prod.case)

text \<open>What the tests keep to: the extension area behind the header, the name behind the area.\<close>

definition header_layout :: "u32 \<Rightarrow> u64 \<Rightarrow> u8 list \<Rightarrow> u32 \<Rightarrow> u8 list \<Rightarrow> bool" where
  "header_layout v off name hl exts \<longleftrightarrow>
     v \<in> {2, 3} \<and> (if v = 3 then 104 \<le> unat hl else True) \<and>
     (if off = 0 then True
      else ext_start v hl + length exts \<le> unat off \<and> 0 < length name \<and> length name \<le> MAX_BACKING_LEN) \<and>
     header_cap off name hl exts < isize_limit"

lemma header_writes_ok:
  assumes "header_layout v off name hl exts"
  shows "writes_fit (header_cap off name hl exts) (header_writes v off name hl exts)"
    and "writes_ascend (header_writes v off name hl exts)"
  using assms
  by (auto simp: header_layout_def header_writes_def header_cap_def writes_fit_def writes_ascend_def
      ext_start_def MIN_HEADER_SIZE_def split: if_splits)


lemma header_build_length:
  "header_layout v off name hl exts \<Longrightarrow>
     length (header_build v off name hl exts) = header_cap off name hl exts"
  by (simp add: header_build_writes header_writes_ok)

lemma header_build_word:
  assumes "header_layout v off name hl exts"
    and "(p, to_be n w) \<in> set (header_writes v off name hl exts)" and "LENGTH('a) \<le> 8 * n"
  shows "be_word_at n (header_build v off name hl exts) p = (w :: 'a::len word)"
  unfolding header_build_writes
  by (rule word_of_write) (simp_all add: header_writes_ok [OF assms(1)] assms(2,3))

lemma header_build_fields:
  assumes "header_layout v off name hl exts" and d: "d = header_build v off name hl exts"
  shows "be_u32 d 0 = MAGIC" and "be_u32 d 4 = v" and "be_u64 d 8 = off"
    and "be_u32 d 16 = of_nat (length name)" and "be_u32 d 20 = 16"
    and "v = 3 \<Longrightarrow> be_u32 d 100 = hl"
  unfolding d be_u32_word_at be_u64_word_at
  by (rule header_build_word [OF assms(1)]; simp add: header_writes_def)+

text \<open>The extension area and the name are where the header says.\<close>

lemma header_build_area:
  assumes "header_layout v off name hl exts" and d: "d = header_build v off name hl exts"
  shows "d = take (ext_start v hl) d @ exts @ drop (ext_start v hl + length exts) d"
    and "length (take (ext_start v hl) d) = ext_start v hl"
proof -
  have "take (length exts) (drop (ext_start v hl) d) = exts"
    unfolding d header_build_writes
    by (rule region_of_write) (simp_all add: header_writes_ok [OF assms(1)], simp add: header_writes_def)
  then show "d = take (ext_start v hl) d @ exts @ drop (ext_start v hl + length exts) d"
    by (metis append_take_drop_id drop_drop add.commute)
  show "length (take (ext_start v hl) d) = ext_start v hl"
    using assms(1) unfolding d
    by (auto simp: header_build_length header_cap_def ext_start_def MIN_HEADER_SIZE_def)
qed

lemma header_build_name:
  assumes "header_layout v off name hl exts" and d: "d = header_build v off name hl exts"
  shows "backing_file_name d = (if off = 0 then None else Some (from_utf8_lossy name))"
proof (cases "off = 0")
  case True
  then show ?thesis
    using header_build_fields(3) [OF assms] by (simp add: backing_file_name_def)
next
  case False
  have n: "0 < length name" "length name \<le> 4096"
    using assms(1) False by (simp_all add: header_layout_def MAX_BACKING_LEN_def)
  have "take (length name) (drop (unat off) d) = name"
    unfolding d header_build_writes
    by (rule region_of_write) (simp_all add: header_writes_ok [OF assms(1)], simp add: header_writes_def False)
  moreover have "unat off + length name \<le> length d" and "length d < isize_limit"
    using assms(1) False by (auto simp: d header_build_length header_cap_def header_layout_def)
  moreover have "unat (of_nat (length name) :: u32) = length name"
    using n(2) by (simp add: unat_of_nat)
  moreover have "(of_nat (length name) :: u32) \<noteq> 0" using calculation(4) n(1) by auto
  ultimately show ?thesis
    using False n header_build_fields(3,4) [OF assms]
    by (simp add: backing_file_name_def usize_checked_add_def get_range_def width_simps
        MAX_BACKING_LEN_def min_def)
qed

text \<open>What the lenient parser makes of a built header.\<close>

lemma header_build_parses:
  assumes l: "header_layout v off name hl exts"
    and f: "backing_format_name (header_build v off name hl exts) v = Ok f"
  shows "\<exists>i. info_parse (header_build v off name hl exts) = Ok i \<and>
    i_version i = v \<and> i_cluster_bits i = 16 \<and> i_has_backing_file i = (off \<noteq> 0) \<and>
    i_backing_file i = (if off = 0 then None else Some (from_utf8_lossy name)) \<and> i_backing_format i = f"
proof -
  have "v \<in> {2, 3}" "MIN_HEADER_SIZE \<le> length (header_build v off name hl exts)"
    using l header_build_length [OF l] by (auto simp: header_layout_def header_cap_def MIN_HEADER_SIZE_def)
  from info_parse_reports [OF this(2) header_build_fields(1,2) [OF l refl] this(1) f] show ?thesis
    by (simp add: header_build_name [OF l refl] header_build_fields(3,5) [OF l refl])
qed

lemma header_build_start:
  assumes "header_layout v off name hl exts"
  shows "length (take (ext_start v hl) (header_build v off name hl exts)) =
    (if v = 3 then max (unat (be_u32 (header_build v off name hl exts) 100)) MIN_HEADER_SIZE
     else MIN_HEADER_SIZE)"
  using header_build_area(2) [OF assms refl] header_build_fields(6) [OF assms refl] assms
  by (auto simp: ext_start_def header_layout_def MIN_HEADER_SIZE_def)

lemma header_build_format:
  assumes l: "header_layout v off name hl (ext_area exts @ ext_encode EXT_BACKING_FORMAT fmt @ rest)"
    and "list_all skipped_ext exts" and "length exts \<le> 63" and "length fmt \<le> MAX_BACKING_LEN"
  shows "backing_format_name (header_build v off name hl
      (ext_area exts @ ext_encode EXT_BACKING_FORMAT fmt @ rest)) v = Ok (Some (from_utf8_lossy fmt))"
proof -
  have "length (header_build v off name hl (ext_area exts @ ext_encode EXT_BACKING_FORMAT fmt @ rest)) < isize_limit"
    using l header_build_length [OF l] by (simp add: header_layout_def)
  from backing_format_in_area [OF _ assms(2-4) this header_build_start [OF l],
      of "rest @ drop (ext_start v hl + length (ext_area exts @ ext_encode EXT_BACKING_FORMAT fmt @ rest))
        (header_build v off name hl (ext_area exts @ ext_encode EXT_BACKING_FORMAT fmt @ rest))"]
  show ?thesis using header_build_area(1) [OF l refl] by simp
qed

lemma header_build_no_format:
  assumes l: "header_layout v off name hl (ext_area exts @ ext_encode EXT_END [] @ rest)"
    and "list_all skipped_ext exts" and "length exts \<le> 64"
  shows "backing_format_name (header_build v off name hl (ext_area exts @ ext_encode EXT_END [] @ rest)) v = Ok None"
proof -
  have "length (header_build v off name hl (ext_area exts @ ext_encode EXT_END [] @ rest)) < isize_limit"
    using l header_build_length [OF l] by (simp add: header_layout_def)
  from backing_format_stops_at_end [OF _ assms(2,3) _ this header_build_start [OF l],
      of "[]" "rest @ drop (ext_start v hl + length (ext_area exts @ ext_encode EXT_END [] @ rest))
        (header_build v off name hl (ext_area exts @ ext_encode EXT_END [] @ rest))"]
  show ?thesis using header_build_area(1) [OF l refl] by simp
qed

section \<open>Properties\<close>

text \<open>
  C23. Round trip of a header with a backing file: for version 2 and 3, any header length from 104,
  up to 63 other extensions and any payloads, the lenient parser gives back the name and the
  format that build wrote, and no name when the offset is 0.
\<close>

theorem header_build_roundtrip:
  assumes "header_layout v off name hl (ext_area exts @ ext_encode EXT_BACKING_FORMAT fmt @ rest)"
    and "list_all skipped_ext exts" and "length exts \<le> 63" and "length fmt \<le> MAX_BACKING_LEN"
  shows "\<exists>i. info_parse (header_build v off name hl
        (ext_area exts @ ext_encode EXT_BACKING_FORMAT fmt @ rest)) = Ok i \<and>
    i_version i = v \<and> i_cluster_bits i = 16 \<and> i_has_backing_file i = (off \<noteq> 0) \<and>
    i_backing_file i = (if off = 0 then None else Some (from_utf8_lossy name)) \<and>
    i_backing_format i = Some (from_utf8_lossy fmt)"
  by (rule header_build_parses [OF assms(1) header_build_format [OF assms]])

theorem header_build_roundtrip_witness:
  "\<exists>i. info_parse (header_build 3 200 (str ''base.qcow2'') 112
      (ext_encode 0x12345678 [1, 2, 3] @ ext_encode EXT_BACKING_FORMAT (str ''raw'') @ [])) = Ok i \<and>
    i_backing_format i = Some (str ''raw'') \<and> i_backing_file i = Some (str ''base.qcow2'')"
proof -
  have "from_utf8_lossy (str ''raw'') = str ''raw''" "from_utf8_lossy (str ''base.qcow2'') = str ''base.qcow2''"
    by (rule from_utf8_lossy_valid [OF utf8_valid_ascii], simp add: str_def)+
  moreover have "header_layout 3 200 (str ''base.qcow2'') 112
      (ext_area [(0x12345678, [1, 2, 3])] @ ext_encode EXT_BACKING_FORMAT (str ''raw'') @ [])"
    by (simp add: header_layout_def ext_start_def ext_area_def length_ext_encode header_cap_def
        MAX_BACKING_LEN_def isize_limit_def str_def)
  from header_build_roundtrip [OF this]
  have "\<exists>i. info_parse (header_build 3 200 (str ''base.qcow2'') 112
      (ext_encode 0x12345678 [1, 2, 3] @ ext_encode EXT_BACKING_FORMAT (str ''raw'') @ [])) = Ok i \<and>
    i_backing_format i = Some (from_utf8_lossy (str ''raw'')) \<and>
    i_backing_file i = Some (from_utf8_lossy (str ''base.qcow2''))"
    by (auto simp: skipped_ext_def EXT_END_def EXT_BACKING_FORMAT_def ext_area_def
        MAX_BACKING_LEN_def str_def)
  ultimately show ?thesis by simp
qed

end
