(* ===== verification/Header_Tests.thy ===== *)
theory Header_Tests
  imports Header_Fixture Testkit
begin

text \<open>
  The tests of core/src/header.rs, each as the bool of its assertions, and the proofs that they
  pass: from the round trip of the builder where they use it, from the fields of the written
  header otherwise.
\<close>

section \<open>The tests\<close>

definition no_backing_file_yields_none :: bool where
  "no_backing_file_yields_none =
    (let d = replicate 112 0;
         d = put d 0 (to_be 4 MAGIC);
         d = put d 4 (to_be 4 (3 :: u32)) in
     expect (info_parse d) (\<lambda>info. i_backing_file info = None \<and> i_backing_format info = None))"

definition backing_file_name_is_extracted :: bool where
  "backing_file_name_is_extracted =
    (let name = str ''base.qcow2'';
         endmark = [] @ ext_encode EXT_END [];
         d = header_build 3 200 name 112 endmark in
     expect (info_parse d) (\<lambda>info.
       i_backing_file info = Some (str ''base.qcow2'') \<and> i_backing_format info = None))"

definition backing_format_extension_is_extracted :: bool where
  "backing_format_extension_is_extracted =
    (let exts = ext_encode EXT_BACKING_FORMAT (str ''qcow2'') @ ext_encode EXT_END [];
         d = header_build 3 200 (str ''base.qcow2'') 112 exts in
     expect (info_parse d) (\<lambda>info.
       i_backing_format info = Some (str ''qcow2'') \<and>
       i_backing_file info = Some (str ''base.qcow2'')))"

definition format_extension_after_an_unknown_extension :: bool where
  "format_extension_after_an_unknown_extension =
    (let exts = ext_encode 0x12345678 (str ''ignored payload'')
           @ ext_encode EXT_BACKING_FORMAT (str ''raw'') @ ext_encode EXT_END [];
         d = header_build 3 0 [] 112 exts in
     expect (info_parse d) (\<lambda>info. i_backing_format info = Some (str ''raw'')))"

definition v2_extensions_begin_at_offset_72 :: bool where
  "v2_extensions_begin_at_offset_72 =
    (let exts = ext_encode EXT_BACKING_FORMAT (str ''raw'') @ ext_encode EXT_END [];
         d = header_build 2 0 [] 72 exts in
     expect (info_parse d) (\<lambda>info. i_backing_format info = Some (str ''raw'')))"

definition backing_offset_past_window_yields_none :: bool where
  "backing_offset_past_window_yields_none =
    (let d = replicate 112 0;
         d = put d 0 (to_be 4 MAGIC);
         d = put d 4 (to_be 4 (3 :: u32));
         d = put d 8 (to_be 8 (100000 :: u64));
         d = put d 16 (to_be 4 (10 :: u32)) in
     expect (info_parse d) (\<lambda>info. i_backing_file info = None))"

definition oversized_backing_size_is_capped_not_panicking :: bool where
  "oversized_backing_size_is_capped_not_panicking =
    (let name = replicate 50 120;
         d = header_build 3 200 name 112 (ext_encode EXT_END []);
         d = put d 16 (to_be 4 (- 1 :: u32)) in
     expect (info_parse d) (\<lambda>info. i_backing_file info \<noteq> None \<or> i_backing_file info = None))"

definition qcow1_version_is_reported_leniently :: bool where
  "qcow1_version_is_reported_leniently =
    (let d = replicate 72 0;
         d = put d 0 (to_be 4 MAGIC);
         d = put d 4 (to_be 4 (1 :: u32));
         d = put d 8 (to_be 8 (0 :: u64));
         d = put d 24 (to_be 8 (push_bit 20 4 :: u64)) in
     expect (info_parse d) (\<lambda>info.
       i_version info = 1 \<and> i_virtual_disk_size info = push_bit 20 4 \<and>
       \<not> i_has_backing_file info \<and> i_backing_format info = None))"

definition unsupported_version_still_errors :: bool where
  "unsupported_version_still_errors =
    (let d = replicate 72 0;
         d = put d 0 (to_be 4 MAGIC);
         d = put d 4 (to_be 4 (7 :: u32)) in
     case info_parse d of Err (UnsupportedVersion v) \<Rightarrow> v = 7 | _ \<Rightarrow> False)"

definition strict_header :: "u8 list" where
  "strict_header =
    (let h = replicate 104 0;
         h = put h 0 (to_be 4 MAGIC);
         h = put h 4 (to_be 4 (2 :: u32))
     in put h 20 (to_be 4 (16 :: u32)))"

definition strict_reader_rejects_unsupported_version :: bool where
  "strict_reader_rejects_unsupported_version =
    (let h = put strict_header 4 (to_be 4 (7 :: u32)) in
     case header_parse h of Err (UnsupportedVersion v) \<Rightarrow> v = 7 | _ \<Rightarrow> False)"

definition strict_reader_rejects_encryption :: bool where
  "strict_reader_rejects_encryption =
    (let h = put strict_header 32 (to_be 4 (1 :: u32)) in
     case header_parse h of Err EncryptedNotSupported \<Rightarrow> True | _ \<Rightarrow> False)"

definition strict_reader_rejects_unsupported_incompatible_features :: bool where
  "strict_reader_rejects_unsupported_incompatible_features =
    (let h = put strict_header 4 (to_be 4 (3 :: u32));
         h = put h 72 (to_be 8 (push_bit 4 1 :: u64)) in
     case header_parse h of Err (UnsupportedIncompatibleFeatures _) \<Rightarrow> True | _ \<Rightarrow> False)"

definition info_parse_rejects_bad_magic :: bool where
  "info_parse_rejects_bad_magic =
    (let h = put (replicate 72 0) 0 (to_be 4 (0xDEADBEEF :: u32)) in
     case info_parse h of Err BadMagic \<Rightarrow> True | _ \<Rightarrow> False)"

definition format_extension_walk_exhausts_without_end_marker :: bool where
  "format_extension_walk_exhausts_without_end_marker =
    (let exts = ext_encode 0x11111111 (str ''payloadA'') @ ext_encode 0x22222222 (str ''payloadB'');
         d = replicate 112 0;
         d = put d 0 (to_be 4 MAGIC);
         d = put d 4 (to_be 4 (3 :: u32));
         d = put d 100 (to_be 4 (112 :: u32));
         d = d @ exts in
     expect (info_parse d) (\<lambda>info. i_backing_format info = None))"

definition extension_walk_stops_after_the_iteration_cap :: bool where
  "extension_walk_stops_after_the_iteration_cap =
    (let exts = concat (replicate 70 (ext_encode 0x0A0A0A0A (str ''pad!'')));
         d = replicate 112 0;
         d = put d 0 (to_be 4 MAGIC);
         d = put d 4 (to_be 4 (3 :: u32));
         d = put d 100 (to_be 4 (112 :: u32));
         d = d @ exts in
     expect (info_parse d) (\<lambda>info. i_backing_format info = None))"

definition no_end_marker_stops_at_window_end :: bool where
  "no_end_marker_stops_at_window_end =
    (let exts = ext_encode 0x11111111 (str ''abcdefgh'');
         d = header_build 3 0 [] 112 exts in
     expect (info_parse d) (\<lambda>info. i_backing_format info = None))"

section \<open>Headers that are rejected\<close>

lemmas word_puts = be_u32_word_at be_u64_word_at be_word_at_put_same be_word_at_put_other be_word_at_zeros

lemma header_rejection_tests_pass:
  "unsupported_version_still_errors" "info_parse_rejects_bad_magic"
  "strict_reader_rejects_unsupported_version" "strict_reader_rejects_encryption"
  "strict_reader_rejects_unsupported_incompatible_features"
proof -
  show "unsupported_version_still_errors"
    by (simp add: unsupported_version_still_errors_def Let_def info_parse_def word_puts
        MIN_HEADER_SIZE_def)
  show "info_parse_rejects_bad_magic"
    by (simp add: info_parse_rejects_bad_magic_def Let_def info_parse_def word_puts MIN_HEADER_SIZE_def MAGIC_def)
  show "strict_reader_rejects_unsupported_version"
    by (simp add: strict_reader_rejects_unsupported_version_def Let_def strict_header_def header_parse_def
        word_puts MIN_HEADER_SIZE_def)
  show "strict_reader_rejects_encryption"
    by (simp add: strict_reader_rejects_encryption_def Let_def strict_header_def header_parse_def
        word_puts MIN_HEADER_SIZE_def)
  show "strict_reader_rejects_unsupported_incompatible_features"
    by (simp add: strict_reader_rejects_unsupported_incompatible_features_def Let_def strict_header_def
        header_parse_def word_puts MIN_HEADER_SIZE_def incompat_defs)
qed

section \<open>Headers that are accepted\<close>

lemmas layout_defs = header_layout_def ext_start_def ext_area_def length_ext_encode header_cap_def
  MAX_BACKING_LEN_def MIN_HEADER_SIZE_def isize_limit_def str_def skipped_ext_def EXT_END_def EXT_BACKING_FORMAT_def

lemma header_builder_tests_pass:
  "backing_file_name_is_extracted" "backing_format_extension_is_extracted"
  "format_extension_after_an_unknown_extension" "v2_extensions_begin_at_offset_72"
proof -
  have n: "from_utf8_lossy (str ''base.qcow2'') = str ''base.qcow2''" "from_utf8_lossy (str ''qcow2'') = str ''qcow2''"
    "from_utf8_lossy (str ''raw'') = str ''raw''"
    by (rule from_utf8_lossy_ascii, simp add: str_def)+
  have l: "header_layout 3 200 (str ''base.qcow2'') 112 (ext_area [] @ ext_encode EXT_END [] @ [])"
    by (simp add: layout_defs)
  from header_build_parses [OF l header_build_no_format [OF l]] n show "backing_file_name_is_extracted"
    by (auto simp: backing_file_name_is_extracted_def ext_area_def)
  have l: "header_layout 3 200 (str ''base.qcow2'') 112
      (ext_area [] @ ext_encode EXT_BACKING_FORMAT (str ''qcow2'') @ ext_encode EXT_END [])"
    by (simp add: layout_defs)
  from header_build_parses [OF l header_build_format [OF l]] n show "backing_format_extension_is_extracted"
    by (auto simp: backing_format_extension_is_extracted_def ext_area_def MAX_BACKING_LEN_def str_def)
  have l: "header_layout 3 0 [] 112
      (ext_area [(0x12345678, str ''ignored payload'')] @ ext_encode EXT_BACKING_FORMAT (str ''raw'') @ ext_encode EXT_END [])"
    by (simp add: layout_defs)
  have "list_all skipped_ext [(0x12345678, str ''ignored payload'')]" by (simp add: layout_defs)
  from header_build_parses [OF l header_build_format [OF l this]] n
  show "format_extension_after_an_unknown_extension"
    by (auto simp: format_extension_after_an_unknown_extension_def ext_area_def MAX_BACKING_LEN_def str_def)
  have l: "header_layout 2 0 [] 72
      (ext_area [] @ ext_encode EXT_BACKING_FORMAT (str ''raw'') @ ext_encode EXT_END [])"
    by (simp add: layout_defs)
  from header_build_parses [OF l header_build_format [OF l]] n show "v2_extensions_begin_at_offset_72"
    by (auto simp: v2_extensions_begin_at_offset_72_def ext_area_def MAX_BACKING_LEN_def str_def)
qed

lemma plain_header_tests_pass:
  "no_backing_file_yields_none" "backing_offset_past_window_yields_none" "qcow1_version_is_reported_leniently"
proof -
  note d = Let_def info_parse_def backing_file_name_def backing_format_name_def word_puts MIN_HEADER_SIZE_def
    ext_walk_zero width_simps MAGIC_def
  show "no_backing_file_yields_none" by (simp add: no_backing_file_yields_none_def d)
  show "backing_offset_past_window_yields_none"
    by (simp add: backing_offset_past_window_yields_none_def d get_range_def usize_checked_add_def)
  show "qcow1_version_is_reported_leniently" by (simp add: qcow1_version_is_reported_leniently_def d)
qed

lemma oversized_test: "oversized_backing_size_is_capped_not_panicking"
proof -
  let ?exts = "ext_encode EXT_END []" and ?name = "replicate 50 (120 :: u8)"
  let ?d = "put (header_build 3 200 ?name 112 ?exts) 16 (to_be 4 (- 1 :: u32))"
  have l: "header_layout 3 200 ?name 112 ?exts" by (simp add: layout_defs)
  have len: "length (header_build 3 200 ?name 112 ?exts) = 322"
    using header_build_length [OF l] by (simp add: layout_defs)
  note f = header_build_fields(1,2) [OF l refl]
  have "be_u32 ?d 0 = MAGIC" "be_u32 ?d 4 = 3" using f len by (simp_all add: word_puts)
  moreover obtain x where "backing_format_name ?d 3 = Ok x"
    using backing_format_name_no_panic [of ?d 3] backing_format_name_not_Err [of ?d 3] len
    by (cases "backing_format_name ?d 3") (auto simp: isize_limit_def)
  ultimately show ?thesis
    using info_parse_reports [of ?d 3 x] len
    by (auto simp: oversized_backing_size_is_capped_not_panicking_def Let_def MIN_HEADER_SIZE_def)
qed

section \<open>Walks without an end marker\<close>

text \<open>The header of these tests, with the area right behind it.\<close>

definition open_header :: "u8 list" where
  "open_header = put (put (put (replicate 112 0) 0 (to_be 4 MAGIC)) 4 (to_be 4 (3 :: u32))) 100 (to_be 4 (112 :: u32))"

lemma open_header_parses:
  assumes "length exts < 65536" and "ext_walk 64 (open_header @ exts) (length open_header) = Ok None"
  shows "\<exists>i. info_parse (open_header @ exts) = Ok i \<and> i_backing_format i = None"
proof -
  have l: "length open_header = 112" by (simp add: open_header_def)
  have "be_u32 (open_header @ exts) 0 = MAGIC" "be_u32 (open_header @ exts) 4 = 3"
    "be_u32 (open_header @ exts) 100 = 112"
    by (simp_all add: be_u32_word_at be_word_at_append l)
       (simp_all add: open_header_def word_puts)
  moreover from this have "backing_format_name (open_header @ exts) 3 = Ok None"
    using assms(2) l by (simp add: backing_format_name_def MIN_HEADER_SIZE_def)
  ultimately show ?thesis
    using info_parse_reports [of "open_header @ exts" 3 None] l by (auto simp: MIN_HEADER_SIZE_def)
qed

lemma open_walk_tests_pass:
  "format_extension_walk_exhausts_without_end_marker" "extension_walk_stops_after_the_iteration_cap"
proof -
  have l: "length open_header = 112" by (simp add: open_header_def)
  let ?a = "ext_encode 0x11111111 (str ''payloadA'')" and ?b = "ext_encode 0x22222222 (str ''payloadB'')"
  have "ext_walk 64 (open_header @ ?a @ ?b) (length open_header)
      = ext_walk 63 (open_header @ ?a @ ?b) (length (open_header @ ?a))"
    using ext_walk_skip [of "open_header @ ?a @ ?b" open_header "0x11111111" "str ''payloadA''" ?b 63]
    by (simp add: l layout_defs)
  also have "\<dots> = Ok None"
    by (rule ext_walk_last [where p = "str ''payloadB''" and ty = "0x22222222"])
       (simp_all add: l layout_defs)
  finally have "ext_walk 64 (open_header @ ?a @ ?b) (length open_header) = Ok None" .
  from open_header_parses [OF _ this] show "format_extension_walk_exhausts_without_end_marker"
    by (auto simp: format_extension_walk_exhausts_without_end_marker_def open_header_def length_ext_encode str_def)
  let ?e = "(0x0A0A0A0A, str ''pad!'')"
  have c: "concat (replicate 70 (ext_encode 0x0A0A0A0A (str ''pad!''))) = ext_area (replicate 64 ?e) @ ext_area (replicate 6 ?e)"
    by (simp add: ext_area_def flip: concat_append map_append replicate_add)
  have n: "length (ext_area (replicate k ?e)) = 16 * k" for k
    by (induction k) (simp_all add: ext_area_def length_ext_encode str_def)
  have "ext_walk 64 (open_header @ ext_area (replicate 64 ?e) @ ext_area (replicate 6 ?e)) (length open_header) = Ok None"
    by (subst ext_walk_area [OF refl]) (use n [of 6] n [of 64] in \<open>auto simp: l isize_limit_def skipped_ext_def EXT_END_def EXT_BACKING_FORMAT_def str_def list_all_iff\<close>)
  from open_header_parses [OF _ this] show "extension_walk_stops_after_the_iteration_cap"
    unfolding extension_walk_stops_after_the_iteration_cap_def Let_def c
    by (auto simp: open_header_def n)
qed

text \<open>
  The area that \<open>build\<close> leaves behind the extensions is zero, so this walk does meet an end marker.
\<close>

lemma no_end_marker_test: "no_end_marker_stops_at_window_end"
proof -
  let ?p = "str ''abcdefgh''" and ?e = "ext_encode 0x11111111 (str ''abcdefgh'')"
  let ?d = "header_build 3 0 [] 112 (ext_encode 0x11111111 (str ''abcdefgh''))"
  have l: "header_layout 3 0 [] 112 ?e" by (simp add: layout_defs)
  have len: "length ?d = 192" using header_build_length [OF l] by (simp add: layout_defs)
  have d: "?d = take 112 ?d @ ?e @ drop 128 ?d" and l112: "length (take 112 ?d) = 112"
    using header_build_area [OF l refl] len by (simp_all add: ext_start_def length_ext_encode str_def)
  have "ext_walk 64 ?d (length (take 112 ?d)) = ext_walk 63 ?d (length (take 112 ?d @ ?e))"
    using ext_walk_skip [OF d, of 63] len by (simp add: layout_defs)
  then have "ext_walk 64 ?d 112 = ext_walk 63 ?d 128"
    using l112 by (simp add: length_ext_encode str_def)
  also have "\<dots> = Ok None"
  proof (rule ext_walk_zero)
    have "be_word_at 4 ?d 128 = (be_word_at 4 (replicate (header_cap 0 [] 112 ?e) 0) 128 :: u32)"
      unfolding header_build_writes
      by (rule word_untouched) (simp_all add: header_writes_ok [OF l], simp add: header_writes_def away_from_def layout_defs)
    then show "be_u32 ?d 128 = 0" by (simp add: be_u32_word_at be_word_at_zeros)
  qed (simp add: width_simps)
  finally have "backing_format_name ?d 3 = Ok None"
    using header_build_fields(6) [OF l refl] by (simp add: backing_format_name_def MIN_HEADER_SIZE_def)
  from header_build_parses [OF l this] show ?thesis
    by (auto simp: no_end_marker_stops_at_window_end_def)
qed

text \<open>The suite.\<close>

definition header_suite :: bool where
  "header_suite \<longleftrightarrow>
     no_backing_file_yields_none \<and>
     backing_file_name_is_extracted \<and>
     backing_format_extension_is_extracted \<and>
     format_extension_after_an_unknown_extension \<and>
     v2_extensions_begin_at_offset_72 \<and>
     backing_offset_past_window_yields_none \<and>
     oversized_backing_size_is_capped_not_panicking \<and>
     qcow1_version_is_reported_leniently \<and>
     unsupported_version_still_errors \<and>
     strict_reader_rejects_unsupported_version \<and>
     strict_reader_rejects_encryption \<and>
     strict_reader_rejects_unsupported_incompatible_features \<and>
     info_parse_rejects_bad_magic \<and>
     format_extension_walk_exhausts_without_end_marker \<and>
     extension_walk_stops_after_the_iteration_cap \<and>
     no_end_marker_stops_at_window_end"

lemma header_suite: header_suite
  by (simp add: header_suite_def header_rejection_tests_pass header_builder_tests_pass plain_header_tests_pass
      oversized_test open_walk_tests_pass no_end_marker_test)

end
