(* ===== verification/Reader_Fixture.thy ===== *)
theory Reader_Fixture
  imports Testutil
begin

text \<open>
  The builders of core/src/lib.rs (module \<open>tests\<close>): a bare header with any \<open>cluster_bits\<close>, and
  an image whose only cluster is compressed.  The DEFLATE encoder of flate2 is the parameter
  \<open>deflate\<close>, its decoder the \<open>inflate\<close> of the reader; all that is used of the pair is that the
  decoder gives back what was encoded.
\<close>

section \<open>The builders\<close>

definition qcow2_header_bytes :: "u32 \<Rightarrow> u8 list" where
  "qcow2_header_bytes cluster_bits =
    (let h = replicate 72 0;
         h = put h 0 (to_be 4 (0x514649fb :: u32));
         h = put h 4 (to_be 4 (2 :: u32));
         h = put h 20 (to_be 4 cluster_bits);
         h = put h 24 (to_be 8 (512 :: u64));
         h = put h 36 (to_be 4 (0 :: u32))
     in put h 40 (to_be 8 (0 :: u64)))"

definition compressed_qcow2 :: "(u8 list \<Rightarrow> u8 list) \<Rightarrow> u8 list \<Rightarrow> u8 list" where
  "compressed_qcow2 deflate plain =
    (let cs = of_nat CLUSTER_SIZE :: u64;
         l1_off = cs;
         l2_off = cs * 3;
         data_off = cs * 4;
         compressed = deflate plain;
         nb_sectors = of_nat (max ((length compressed + 511) div 512) 1) :: u64;
         img = replicate (unat data_off) 0;
         img = put img 0 (to_be 4 MAGIC);
         img = put img 4 (to_be 4 (2 :: u32));
         img = put img 20 (to_be 4 CLUSTER_BITS);
         img = put img 24 (to_be 8 cs);
         img = put img 36 (to_be 4 (1 :: u32));
         img = put img 40 (to_be 8 l1_off);
         img = put img (unat l1_off) (to_be 8 l2_off);
         split = 63 - CLUSTER_BITS;
         desc = push_bit 62 1 OR push_bit (unat split) (nb_sectors - 1) OR data_off
     in put img (unat l2_off) (to_be 8 desc) @ compressed)"

section \<open>A bare header\<close>

lemma length_qcow2_header_bytes: "length (qcow2_header_bytes cb) = 72"
  by (simp add: qcow2_header_bytes_def Let_def)

text \<open>
  The values of \<open>cluster_bits\<close> that once made \<open>open\<close> panic, and every other one: the header opens
  exactly in the range of the format.
\<close>

lemma qcow2_header_bytes_parse:
  "header_parse (qcow2_header_bytes cb) =
    (if 9 \<le> unat cb \<and> unat cb \<le> 20
     then Ok \<lparr>h_cluster_bits = cb, h_disk_size = 512, h_l1_size = 0, h_l1_table_offset = 0\<rparr>
     else Err (ClusterBitsOutOfRange cb))"
proof -
  define ws where "ws = [(0 :: nat, to_be 4 (0x514649fb :: u32)), (4, to_be 4 (2 :: u32)), (20, to_be 4 cb),
    (24, to_be 8 (512 :: u64)), (36, to_be 4 (0 :: u32)), (40, to_be 8 (0 :: u64))]"
  have h: "qcow2_header_bytes cb = writes ws (replicate 72 0)"
    by (simp only: qcow2_header_bytes_def Let_def ws_def writes_def foldl.simps prod.case)
  have fit: "writes_fit (length (replicate 72 (0 :: u8))) ws" and asc: "writes_ascend ws"
    by (simp_all add: ws_def writes_fit_def writes_ascend_def)
  have "be_word_at 4 (qcow2_header_bytes cb) 0 = (0x514649fb :: u32)"
    "be_word_at 4 (qcow2_header_bytes cb) 4 = (2 :: u32)" "be_word_at 4 (qcow2_header_bytes cb) 20 = cb"
    "be_word_at 8 (qcow2_header_bytes cb) 24 = (512 :: u64)"
    "be_word_at 4 (qcow2_header_bytes cb) 36 = (0 :: u32)" "be_word_at 8 (qcow2_header_bytes cb) 40 = (0 :: u64)"
    unfolding h by (rule word_of_write [OF fit asc]; simp add: ws_def)+
  moreover have "be_word_at 8 (qcow2_header_bytes cb) 8 = (0 :: u64)"
    "be_word_at 4 (qcow2_header_bytes cb) 32 = (0 :: u32)"
    unfolding h by (subst word_untouched [OF fit]; simp add: ws_def away_from_def be_word_at_zeros)+
  moreover have "length (qcow2_header_bytes cb) = 72" unfolding h using length_writes [OF fit] by simp
  ultimately show ?thesis
    by (simp add: header_parse_def Let_def be_u32_word_at be_u64_word_at MIN_HEADER_SIZE_def
        MAGIC_def word_le_nat_alt)
qed

section \<open>The descriptor of the compressed cluster\<close>

text \<open>Up to 256 sectors the count fits in its eight bits.\<close>

definition sectors :: "u8 list \<Rightarrow> nat" where
  "sectors stream = max ((length stream + 511) div 512) 1"

definition descriptor :: "nat \<Rightarrow> u64" where
  "descriptor n = push_bit 62 1 OR push_bit 54 (of_nat n - 1) OR 2048"

lemma sectors_bounds:
  "1 \<le> sectors stream" "length stream \<le> 512 * sectors stream"
  "length stream \<le> 131072 \<Longrightarrow> sectors stream \<le> 256"
  by (simp_all add: sectors_def)

lemma unat_descriptor:
  assumes "1 \<le> n" and "n \<le> 256"
  shows "unat (descriptor n) = 2 ^ 62 + (n - 1) * 2 ^ 54 + 2048"
proof -
  define k where "k = n - 1"
  have k: "k < 256" "of_nat n - 1 = (of_nat k :: u64)" using assms by (auto simp: k_def of_nat_diff)
  have uk: "unat (of_nat k :: u64) = k" using k by (simp only: unat_of_nat) simp
  have bk: "bit (of_nat k :: u64) i \<longleftrightarrow> i < 8 \<and> bit k i" for i
  proof -
    have "bit (of_nat k :: u64) i \<longleftrightarrow> bit k i"
      using uk bit_unsigned_iff [where 'a = nat and w = "of_nat k :: u64" and n = i] by auto
    moreover have "i < 8" if "bit k i"
    proof (rule ccontr)
      assume "\<not> i < 8"
      then have "(2 :: nat) ^ 8 \<le> 2 ^ i" by (intro power_increasing) auto
      with k that show False by (simp add: bit_iff_odd)
    qed
    ultimately show ?thesis by blast
  qed
  let ?a = "push_bit 62 1 :: u64" and ?b = "push_bit 54 (of_nat k) :: u64"
  have b11: "bit (2048 :: u64) i \<longleftrightarrow> i = 11" for i
    using bit_2_power_u64 [of 11 i] by auto
  have "?b AND 2048 = 0"
    by (rule bit_word_eqI) (simp only: bit_and_iff bit_push_bit_iff b11, auto)
  then have s1: "?b OR 2048 = ?b + 2048" by (rule disjunctive_add_eq_or [symmetric])
  have "?a AND (?b OR 2048) = 0"
    by (rule bit_word_eqI) (simp only: bit_and_iff bit_or_iff bit_push_bit_iff bit_1_iff b11 bk, auto)
  then have s2: "?a OR (?b OR 2048) = ?a + (?b OR 2048)" by (rule disjunctive_add_eq_or [symmetric])
  have "descriptor n = of_nat (2 ^ 62 + k * 2 ^ 54 + 2048)"
    unfolding descriptor_def k(2) or.assoc s2 unfolding s1 by (simp add: push_bit_eq_mult algebra_simps)
  moreover have "2 ^ 62 + k * 2 ^ 54 + 2048 < (2 :: nat) ^ 64" using k by simp
  ultimately show ?thesis by (simp only: unat_of_nat k_def) simp
qed

lemma descriptor_meaning:
  assumes "1 \<le> n" and "n \<le> 256"
  shows "entry_meaning 9 (descriptor n) = Compressed 2048 (512 * n)"
proof -
  define k where "k = n - 1"
  have u: "unat (descriptor n) = 2 ^ 62 + k * 2 ^ 54 + 2048" and k: "k < 256"
    using unat_descriptor [OF assms] assms by (simp_all add: k_def)
  have "bit (descriptor n) 62" 
    by (simp add: descriptor_def bit_or_iff bit_push_bit_iff)
  moreover have "unat (descriptor n) mod 2 ^ 54 = 2048"
  proof -
    have "unat (descriptor n) = 2048 + (256 + k) * 2 ^ 54" by (simp add: u)
    then show ?thesis by (simp only: mod_mult_self1) simp
  qed
  moreover have "unat (descriptor n) div 2 ^ 54 mod 2 ^ 8 = k"
  proof -
    have "unat (descriptor n) = 2048 + (256 + k) * 2 ^ 54" by (simp add: u)
    then have "unat (descriptor n) div 2 ^ 54 = 256 + k" by (simp only: div_mult_self1) simp
    then show ?thesis using k by simp
  qed
  ultimately show ?thesis using assms by (simp add: entry_meaning_def k_def)
qed


section \<open>The layout of the image\<close>

definition compressed_writes :: "nat \<Rightarrow> (nat \<times> u8 list) list" where
  "compressed_writes n =
    [(0, to_be 4 MAGIC), (4, to_be 4 (2 :: u32)), (20, to_be 4 CLUSTER_BITS),
     (24, to_be 8 (512 :: u64)), (36, to_be 4 (1 :: u32)), (40, to_be 8 (512 :: u64)),
     (512, to_be 8 (1536 :: u64)), (1536, to_be 8 (descriptor n))]"

definition compressed_front :: "nat \<Rightarrow> u8 list" where
  "compressed_front n = writes (compressed_writes n) (replicate 2048 0)"

lemma compressed_qcow2_eq:
  "compressed_qcow2 deflate plain = compressed_front (sectors (deflate plain)) @ deflate plain"
proof -
  have w: "of_nat CLUSTER_SIZE = (512 :: u64)" "unat (512 * 4 :: u64) = 2048" "(512 * 3 :: u64) = 1536"
    "unat (512 :: u64) = 512" "unat (1536 :: u64) = 1536" "unat (63 - CLUSTER_BITS) = 54"
    "(512 * 4 :: u64) = 2048" "unat (2048 :: u64) = 2048"
    by (simp_all add: CLUSTER_SIZE CLUSTER_BITS_def)
  show ?thesis
    by (simp only: compressed_qcow2_def Let_def w compressed_front_def compressed_writes_def writes_def
        foldl.simps prod.case descriptor_def sectors_def or.assoc)
qed

lemma compressed_writes_ok:
  "writes_fit 2048 (compressed_writes n)" "writes_ascend (compressed_writes n)"
  by (simp_all add: compressed_writes_def writes_fit_def writes_ascend_def)

lemma compressed_front_length: "length (compressed_front n) = 2048"
  by (simp add: compressed_front_def compressed_writes_ok)

lemma compressed_front_written:
  assumes "(off, bs) \<in> set (compressed_writes n)"
  shows "take (length bs) (drop off (compressed_front n)) = bs"
  using region_of_write [OF _ compressed_writes_ok(2) assms, of "replicate 2048 0"]
  by (simp add: compressed_front_def compressed_writes_ok)

lemma compressed_front_word:
  assumes "(off, to_be m w) \<in> set (compressed_writes n)" and "LENGTH('a) \<le> 8 * m"
  shows "be_word_at m (compressed_front n) off = (w :: 'a::len word)"
  using word_of_write [OF _ compressed_writes_ok(2) assms, of "replicate 2048 0"]
  by (simp add: compressed_front_def compressed_writes_ok)

lemma compressed_front_zero:
  assumes "list_all (away_from off m) (compressed_writes n)"
  shows "be_word_at m (compressed_front n) off = 0"
  using word_untouched [OF _ assms, of "replicate 2048 0"]
  by (simp add: compressed_front_def compressed_writes_ok be_word_at_zeros)

lemma compressed_parse:
  "header_parse (take 104 (compressed_front n @ rest)) = Ok test_fields"
proof -
  have f: "be_word_at m (take 104 (compressed_front n @ rest)) off = be_word_at m (compressed_front n) off"
    if "off + m \<le> 104" for m off
    using that by (simp add: be_word_at_take be_word_at_append compressed_front_length del: take_append)
  have "be_word_at 4 (compressed_front n) 0 = MAGIC" "be_word_at 4 (compressed_front n) 4 = (2 :: u32)"
    "be_word_at 4 (compressed_front n) 20 = CLUSTER_BITS" "be_word_at 8 (compressed_front n) 24 = (512 :: u64)"
    "be_word_at 4 (compressed_front n) 36 = (1 :: u32)" "be_word_at 8 (compressed_front n) 40 = (512 :: u64)"
    by (rule compressed_front_word; simp add: compressed_writes_def)+
  moreover have "be_word_at 8 (compressed_front n) 8 = (0 :: u64)" "be_word_at 4 (compressed_front n) 32 = (0 :: u32)"
    by (rule compressed_front_zero; simp add: compressed_writes_def away_from_def)+
  ultimately show ?thesis
    by (simp add: header_parse_Ok_iff decodable_header_def be_u32_word_at be_u64_word_at f
        compressed_front_length MIN_HEADER_SIZE_def test_fields_def CLUSTER_BITS_def del: take_append)
qed

lemma compressed_tables:
  "be_u64_table (take 8 (drop 512 (compressed_front n @ rest))) = [1536]"
  "from_be (take 8 (drop 1536 (compressed_front n @ rest))) = descriptor n"
proof -
  have "take 8 (drop 512 (compressed_front n)) = to_be 8 (1536 :: u64)"
    "take 8 (drop 1536 (compressed_front n)) = to_be 8 (descriptor n)"
    using compressed_front_written [of 512 "to_be 8 (1536 :: u64)" n]
      compressed_front_written [of 1536 "to_be 8 (descriptor n)" n]
    by (simp_all add: compressed_writes_def)
  then show "be_u64_table (take 8 (drop 512 (compressed_front n @ rest))) = [1536]"
    "from_be (take 8 (drop 1536 (compressed_front n @ rest))) = descriptor n"
    using be_u64_table_first [of 1536 0] by (simp_all add: compressed_front_length)
qed

text \<open>The guest disk of the image is what the decoder makes of the stream.\<close>

lemma compressed_guest:
  assumes "length stream \<le> 131072" and "off < 512"
  shows "guest_byte inflate 9 [1536] (compressed_front (sectors stream) @ stream) off
    = map_option (\<lambda>plain. padded_sector plain ! off) (inflate stream)"
proof -
  let ?img = "compressed_front (sectors stream) @ stream"
  have z: "off div 2 ^ 9 = 0" "off div 2 ^ 15 = 0" "off mod 2 ^ 9 = off" using assms(2) by simp_all
  have r: "guest_ref 9 [1536] ?img off = Some (Compressed 2048 (512 * sectors stream))"
    using z compressed_tables(2) [of "sectors stream" stream]
      descriptor_meaning [OF sectors_bounds(1) sectors_bounds(3) [OF assms(1)]]
    by (simp add: guest_ref_def guest_l1_def Let_def compressed_front_length)
  have "take (512 * sectors stream) (drop 2048 ?img) = stream"
    using sectors_bounds(2) [of stream] by (simp add: compressed_front_length)
  moreover have "get_at (plain @ replicate 512 0) off = Some (padded_sector plain ! off)" for plain
    using assms(2) by (simp add: get_at_def padded_sector_def del: take_append)
  ultimately show ?thesis
    using z by (simp add: guest_byte_def r cluster_byte_def split: option.split)
qed

lemma compressed_one_cluster:
  assumes "inflate (deflate plain) = Some out" and "length (deflate plain) \<le> 131072"
  shows "one_cluster inflate (padded_sector out) (compressed_qcow2 deflate plain)"
proof -
  note g = compressed_guest [OF assms(2), of _ inflate]
  have "length (padded_sector out) = 512" by (simp add: padded_sector_def)
  then show ?thesis
    using g assms(1) by (simp add: one_cluster_def compressed_qcow2_eq compressed_parse compressed_front_length
        compressed_tables(1) del: take_append drop_append)
qed

lemma compressed_fits:
  "length (deflate plain) \<le> 131072 \<Longrightarrow> length (compressed_qcow2 deflate plain) < isize_limit"
  by (simp add: compressed_qcow2_eq compressed_front_length isize_limit_def)

section \<open>Properties\<close>

text \<open>
  C19. Round trip of a compressed cluster: for every encoder and decoder that fit together and every
  stream of at most 256 sectors, the image of compressed_qcow2 opens over every byte source and
  reads back as the plain bytes, cut or zero-padded to the cluster.
\<close>

theorem compressed_image_roundtrip:
  assumes "byte_source V ok content pos" and "ok b" and "pos b = 0"
    and "content b = compressed_qcow2 deflate plain"
    and "inflate (deflate plain) = Some plain" and "length (deflate plain) \<le> 131072"
  shows "\<exists>r t. open_reader V b = Ok r \<and> virtual_disk_size r = 512 \<and>
    read_window (reader_ops V inflate) 512 r = (Ok (padded_sector plain), t)"
proof -
  note one = compressed_one_cluster [where inflate = inflate and deflate = deflate, OF assms(5,6)]
  from one_cluster_opens [OF assms(1-3)] assms(4) one obtain r where
    "open_reader V b = Ok r" and p: "rpos r = 0"
    and r: "one_cluster_reader inflate ok content (padded_sector plain) r"
    by fastforce
  with reader_over.one_cluster_window [OF reader_over.intro [OF assms(1)] r, of 512] show ?thesis
    by (auto simp: one_cluster_reader_def padded_sector_def)
qed

text \<open>A stored stream: an encoder that adds a byte, and the decoder that drops it.\<close>

definition stored :: "u8 list \<Rightarrow> u8 list" where
  "stored bs = 1 # bs"

definition unstored :: "u8 list \<Rightarrow> u8 list option" where
  "unstored bs = (case bs of [] \<Rightarrow> None | b # bs \<Rightarrow> if b = 1 then Some bs else None)"

theorem compressed_image_roundtrip_witness:
  "\<exists>r t. open_reader cursor_ops (medium_of (compressed_qcow2 stored [7, 8, 9])) = Ok r \<and>
    read_window (reader_ops cursor_ops unstored) 512 r = (Ok ([7, 8, 9] @ replicate 509 0), t)"
proof -
  have "medium_ok (medium_of (compressed_qcow2 stored [7, 8, 9]))"
    by (simp add: medium_ok_def compressed_qcow2_eq compressed_front_length stored_def isize_limit_def)
  moreover have "padded_sector [7, 8, 9] = [7, 8, 9] @ replicate 509 0"
    by (simp add: padded_sector_def)
  ultimately show ?thesis
    using compressed_image_roundtrip [OF cursor_source.byte_source_axioms, of _ stored "[7, 8, 9]" unstored]
    by (fastforce simp: stored_def unstored_def)
qed

end
