(* ===== verification/Reader_Tests.thy ===== *)
theory Reader_Tests
  imports Reader_Fixture Testkit Vfs
begin

text \<open>
  The tests of core/src/lib.rs and core/src/vfs.rs, each as the bool of its assertions, and the
  proofs that they pass.  The decoder and the encoder of flate2 and the buffer sizes of
  \<open>read_to_end\<close> are parameters; a property test of proptest is a function of its input.  The test
  \<open>qcow2_reader_is_send\<close> is a type check and has no counterpart.
\<close>

section \<open>The tests\<close>

text \<open>\<open>(0u8..=255).cycle().take(n)\<close>\<close>

definition cycled :: "nat \<Rightarrow> u8 list" where
  "cycled n = map (\<lambda>i. of_nat (i mod 256)) [0..<n]"

definition open_reader_over_cursor_matches_open_path ::
  "(u8 list \<Rightarrow> u8 list option) \<Rightarrow> (nat \<Rightarrow> nat) \<Rightarrow> bool" where
  "open_reader_over_cursor_matches_open_path inflate sizes =
    (let sector = cycled 512; image = test_qcow2 sector; tmp = tmp_file image in
     expect (reader_open tmp ()) (\<lambda>via_path.
     expect_end (reader_ops file_ops inflate) sizes via_path (\<lambda>want via_path.
     expect (open_reader cursor_ops (medium_of image)) (\<lambda>via_reader.
     expect_end (reader_ops cursor_ops inflate) sizes via_reader (\<lambda>got via_reader.
       got = want \<and> virtual_disk_size via_reader = virtual_disk_size via_path)))))"

definition chunking_backing_still_opens ::
  "(u8 list \<Rightarrow> u8 list option) \<Rightarrow> (nat \<Rightarrow> nat) \<Rightarrow> bool" where
  "chunking_backing_still_opens inflate sizes =
    (let sector = cycled 512; image = test_qcow2 sector; tmp = tmp_file image in
     expect (reader_open tmp ()) (\<lambda>via_path.
     expect_end (reader_ops file_ops inflate) sizes via_path (\<lambda>want via_path.
     let backing = medium_of image in
     expect (open_reader (one_byte_ops cursor_ops) backing) (\<lambda>via_reader.
     expect_end (reader_ops (one_byte_ops cursor_ops) inflate) sizes via_reader (\<lambda>got via_reader.
       got = want \<and> virtual_disk_size via_reader = virtual_disk_size via_path)))))"

definition from_reader_over_cursor_matches_open_path ::
  "(u8 list \<Rightarrow> u8 list option) \<Rightarrow> (nat \<Rightarrow> nat) \<Rightarrow> bool" where
  "from_reader_over_cursor_matches_open_path inflate sizes =
    (let sector = cycled 512; image = test_qcow2 sector; tmp = tmp_file image in
     expect (reader_open tmp ()) (\<lambda>via_path.
     expect_end (reader_ops file_ops inflate) sizes via_path (\<lambda>want via_path.
     expect (open_reader cursor_ops (medium_of image)) (\<lambda>via_reader.
     expect_end (reader_ops cursor_ops inflate) sizes via_reader (\<lambda>got via_reader.
       got = want \<and> virtual_disk_size via_reader = virtual_disk_size via_path)))))"

definition cluster_bits_too_large_rejected :: bool where
  "cluster_bits_too_large_rejected =
    (let f = tmp_file (qcow2_header_bytes 200) in is_err (reader_open f ()))"

definition cluster_bits_zero_rejected :: bool where
  "cluster_bits_zero_rejected =
    (let f = tmp_file (qcow2_header_bytes 0) in is_err (reader_open f ()))"

definition cluster_bits_below_minimum_rejected :: bool where
  "cluster_bits_below_minimum_rejected =
    (let f = tmp_file (qcow2_header_bytes 2) in is_err (reader_open f ()))"

definition open_nonexistent_returns_err :: "rstring file_system \<Rightarrow> bool" where
  "open_nonexistent_returns_err fs = is_err (reader_open fs (str ''/tmp/no_such.qcow2''))"

definition open_empty_file_returns_err :: bool where
  "open_empty_file_returns_err = (let f = tmp_file [] in is_err (reader_open f ()))"

definition open_non_qcow2_file_returns_err :: bool where
  "open_non_qcow2_file_returns_err =
    (let f = tmp_file (str ''this is not a qcow2 image at all'') in is_err (reader_open f ()))"

definition qcow2_virtual_disk_size :: bool where
  "qcow2_virtual_disk_size =
    (let img = test_qcow2 (replicate 512 0); f = tmp_file img in
     expect (reader_open f ()) (\<lambda>reader. virtual_disk_size reader = of_nat CLUSTER_SIZE))"

definition qcow2_read_returns_cluster_data :: "(u8 list \<Rightarrow> u8 list option) \<Rightarrow> bool" where
  "qcow2_read_returns_cluster_data inflate =
    (let data = (replicate 512 0)[42 := 0xDE, 43 := 0xAD];
         img = test_qcow2 data;
         f = tmp_file img in
     expect (reader_open f ()) (\<lambda>reader.
     expect_op (read_exact (reader_ops file_ops inflate) 512) reader (\<lambda>buf reader.
       buf ! 42 = 0xDE \<and> buf ! 43 = 0xAD)))"

definition seek_and_read_at_offset :: "(u8 list \<Rightarrow> u8 list option) \<Rightarrow> bool" where
  "seek_and_read_at_offset inflate =
    (let data = (replicate CLUSTER_SIZE 0)[100 := 0xBE, 101 := 0xEF];
         img = test_qcow2 data;
         f = tmp_file img in
     expect (reader_open f ()) (\<lambda>reader.
     expect_op (reader_seek (SeekStart 100)) reader (\<lambda>_ reader.
     expect_op (read_exact (reader_ops file_ops inflate) 2) reader (\<lambda>buf reader.
       buf = [0xBE, 0xEF]))))"

definition open_never_panics_on_arbitrary_bytes :: "u8 list \<Rightarrow> bool" where
  "open_never_panics_on_arbitrary_bytes bytes =
    (let f = tmp_file bytes in reader_open f () \<noteq> Panic)"

definition open_never_panics_on_valid_magic_plus_garbage :: "u8 list \<Rightarrow> bool" where
  "open_never_panics_on_valid_magic_plus_garbage suffix =
    (let bytes = replicate 8 0;
         bytes = put bytes 0 (to_be 4 (0x514649fb :: u32));
         bytes = put bytes 4 (to_be 4 (2 :: u32));
         bytes = bytes @ suffix;
         f = tmp_file bytes
     in reader_open f () \<noteq> Panic)"

definition zero_plain_cluster_reads_as_zeros :: "(u8 list \<Rightarrow> u8 list option) \<Rightarrow> bool" where
  "zero_plain_cluster_reads_as_zeros inflate =
    (let img = test_qcow2 (replicate 512 0xAB);
         l2_offset = 1536;
         patched = put img l2_offset (to_be 8 (1 :: u64));
         f = tmp_file patched in
     expect (reader_open f ()) (\<lambda>reader.
     expect_op (reader_seek (SeekStart 0)) reader (\<lambda>_ reader.
     expect_op (read_exact (reader_ops file_ops inflate) 512) reader (\<lambda>buf reader.
       buf = replicate 512 0))))"

definition compressed_cluster_decompresses_to_original_bytes ::
  "(u8 list \<Rightarrow> u8 list) \<Rightarrow> (u8 list \<Rightarrow> u8 list option) \<Rightarrow> bool" where
  "compressed_cluster_decompresses_to_original_bytes deflate inflate =
    (let plain = map (\<lambda>i. of_nat (i div 8 mod 251)) [0..<CLUSTER_SIZE];
         img = compressed_qcow2 deflate plain in
     expect (open_reader cursor_ops (medium_of img)) (\<lambda>reader.
     expect_op (read_exact (reader_ops cursor_ops inflate) CLUSTER_SIZE) reader (\<lambda>got reader.
       got = plain)))"

definition short_compressed_stream_resizes_to_full_cluster ::
  "(u8 list \<Rightarrow> u8 list) \<Rightarrow> (u8 list \<Rightarrow> u8 list option) \<Rightarrow> bool" where
  "short_compressed_stream_resizes_to_full_cluster deflate inflate =
    (let half = CLUSTER_SIZE div 2;
         plain = map (\<lambda>i. of_nat (i mod 253)) [0..<half];
         img = compressed_qcow2 deflate plain in
     expect (open_reader cursor_ops (medium_of img)) (\<lambda>reader.
     expect_op (read_exact (reader_ops cursor_ops inflate) CLUSTER_SIZE) reader (\<lambda>got reader.
       let want = put (replicate CLUSTER_SIZE 0) 0 plain in got = want)))"

definition corrupt_compressed_stream_errors_not_panics ::
  "(u8 list \<Rightarrow> u8 list) \<Rightarrow> (u8 list \<Rightarrow> u8 list option) \<Rightarrow> bool" where
  "corrupt_compressed_stream_errors_not_panics deflate inflate =
    (let img = compressed_qcow2 deflate (replicate 64 0xAB);
         data_off = CLUSTER_SIZE * 4;
         img = take data_off img @ replicate (length img - data_off) 0xFF in
     expect (open_reader cursor_ops (medium_of img)) (\<lambda>reader.
     expect_op_err (read_exact (reader_ops cursor_ops inflate) CLUSTER_SIZE) reader (\<lambda>reader. True)))"

definition unallocated_cluster_reads_as_zeros :: "(u8 list \<Rightarrow> u8 list option) \<Rightarrow> bool" where
  "unallocated_cluster_reads_as_zeros inflate =
    (let img = test_qcow2 (replicate 512 0xAB);
         patched = put img 1536 (to_be 8 (0 :: u64)) in
     expect (reader_open (tmp_file patched) ()) (\<lambda>reader.
     expect_op (read_exact (reader_ops file_ops inflate) 512) reader (\<lambda>buf reader.
       buf = replicate 512 0)))"

definition unset_l1_entry_reads_as_zeros :: "(u8 list \<Rightarrow> u8 list option) \<Rightarrow> bool" where
  "unset_l1_entry_reads_as_zeros inflate =
    (let img = test_qcow2 (replicate 512 0xAB);
         patched = put img 512 (to_be 8 (0 :: u64)) in
     expect (reader_open (tmp_file patched) ()) (\<lambda>reader.
     expect_op (read_exact (reader_ops file_ops inflate) 512) reader (\<lambda>buf reader.
       buf = replicate 512 0)))"

definition seek_from_current_and_end_and_reject_negative :: bool where
  "seek_from_current_and_end_and_reject_negative =
    (let img = test_qcow2 (replicate 512 0) in
     expect (reader_open (tmp_file img) ()) (\<lambda>reader.
     expect_op (reader_seek (SeekCurrent 10)) reader (\<lambda>p reader. p = 10 \<and>
     expect_op (reader_seek (SeekCurrent 5)) reader (\<lambda>p reader. p = 15 \<and>
     expect_op (reader_seek (SeekEnd (- 4))) reader (\<lambda>p reader. p = of_nat CLUSTER_SIZE - 4 \<and>
     expect_op (reader_seek (SeekEnd 0)) reader (\<lambda>p reader. p = of_nat CLUSTER_SIZE \<and>
     expect_op_err (reader_seek (SeekCurrent (- 1000))) reader (\<lambda>reader.
     expect_op (reader_seek (SeekStart 0)) reader (\<lambda>_ reader.
     expect_op_err (reader_seek (SeekEnd (- 100000))) reader (\<lambda>reader. True)))))))))"

definition l1_size_over_cap_is_rejected :: bool where
  "l1_size_over_cap_is_rejected =
    (let h = put (qcow2_header_bytes 9) 36 (to_be 4 (push_bit 20 1 + 1 :: u32)) in
     case reader_open (tmp_file h) () of Err (L1TableTooLarge _) \<Rightarrow> True | _ \<Rightarrow> False)"

text \<open>The test of core/src/vfs.rs; \<open>is_empty\<close> is a default method of the trait in forensic-vfs.\<close>

definition qcow2_reader_is_an_image_source ::
  "(u8 list \<Rightarrow> u8 list option) \<Rightarrow> (rstring \<Rightarrow> io_error \<Rightarrow> 'v) \<Rightarrow> (medium qcow2_source \<Rightarrow> bool) \<Rightarrow> bool" where
  "qcow2_reader_is_an_image_source inflate vfs_io is_empty =
    (let sector = put (replicate CLUSTER_SIZE 0) 0 (str ''QCOWMRK!'');
         image = test_qcow2 sector in
     expect (open_reader cursor_ops (medium_of image)) (\<lambda>reader.
     let expected_len = virtual_disk_size reader;
         src = source_new reader in
     source_len src = expected_len \<and> \<not> is_empty src \<and>
     expect_op (read_at cursor_ops inflate vfs_io 0 8) src (\<lambda>buf src.
       length buf = 8 \<and> buf = str ''QCOWMRK!'' \<and>
     expect_op (read_at cursor_ops inflate vfs_io expected_len 16) src (\<lambda>eof src. eof = []))))"

section \<open>They pass\<close>

context reader_over
begin

lemma one_cluster_to_end:
  assumes r: "one_cluster_reader inflate inv content disk r"
  shows "\<exists>t. read_to_end (reader_ops V inflate) sizes k r = Some (Ok (drop (unat (rpos r)) disk), t) \<and>
    one_cluster_reader inflate inv content disk t"
proof -
  have w: "whole_disk inflate inv content r" and d: "reader_disk inflate content r = disk"
    using r by (auto simp: one_cluster_reader_def)
  from byte_source.read_to_end_content [OF guest_source w, of sizes k] d obtain t where
    "read_to_end (reader_ops V inflate) sizes k r = Some (Ok (drop (unat (rpos r)) disk), t)"
    "whole_disk inflate inv content t" "reader_disk inflate content t = reader_disk inflate content r"
    by auto
  with one_cluster_same [OF r] show ?thesis by blast
qed

end

lemma medium_of_ok: "length bs < isize_limit \<Longrightarrow> medium_ok (medium_of bs)"
  by (simp add: medium_ok_def)

lemma medium_one_cluster:
  assumes "byte_source V medium_ok med_bytes pos" and "one_cluster inflate disk img"
    and "length img < isize_limit" and "pos (medium_of img) = 0"
  shows "\<exists>r. open_reader V (medium_of img) = Ok r \<and> rpos r = 0 \<and>
    one_cluster_reader inflate medium_ok med_bytes disk r"
  using one_cluster_opens [OF assms(1) medium_of_ok [OF assms(3)] assms(4)] assms(2) by simp

lemma test_qcow2_fits: "length (test_qcow2 sd) < isize_limit"
  by (simp add: length_test_qcow2 isize_limit_def)

lemma sector_read_back:
  assumes "byte_source V medium_ok med_bytes med_pos" 
  shows "\<exists>r t. open_reader V (medium_of (test_qcow2 sd)) = Ok r \<and>
    read_to_end (reader_ops V inflate) sizes 0 r = Some (Ok (padded_sector sd), t) \<and>
    virtual_disk_size t = 512"
proof -
  from medium_one_cluster [OF assms test_one_cluster test_qcow2_fits] obtain r where
    r: "open_reader V (medium_of (test_qcow2 sd)) = Ok r" "rpos r = 0"
      "one_cluster_reader inflate medium_ok med_bytes (padded_sector sd) r"
    by fastforce
  from reader_over.one_cluster_to_end [OF reader_over.intro [OF assms] r(3), of sizes 0] r show ?thesis
    by (auto simp: one_cluster_reader_def)
qed

lemma backing_tests_pass:
  "open_reader_over_cursor_matches_open_path inflate sizes"
  "from_reader_over_cursor_matches_open_path inflate sizes"
  "chunking_backing_still_opens inflate sizes"
proof -
  from sector_read_back [OF file_bytes.byte_source_axioms] obtain r t where
    f: "open_reader file_ops (medium_of (test_qcow2 (cycled 512))) = Ok r"
      "read_to_end (reader_ops file_ops inflate) sizes 0 r = Some (Ok (padded_sector (cycled 512)), t)"
      "virtual_disk_size t = 512" by blast
  from sector_read_back [OF cursor_source.byte_source_axioms] obtain r' t' where
    c: "open_reader cursor_ops (medium_of (test_qcow2 (cycled 512))) = Ok r'"
      "read_to_end (reader_ops cursor_ops inflate) sizes 0 r' = Some (Ok (padded_sector (cycled 512)), t')"
      "virtual_disk_size t' = 512" by blast
  from sector_read_back [OF one_byte_source.byte_source_axioms] obtain r1 t1 where
    o: "open_reader (one_byte_ops cursor_ops) (medium_of (test_qcow2 (cycled 512))) = Ok r1"
      "read_to_end (reader_ops (one_byte_ops cursor_ops) inflate) sizes 0 r1
        = Some (Ok (padded_sector (cycled 512)), t1)"
      "virtual_disk_size t1 = 512" by blast
  note e = reader_open_tmp expect_end_Ok
  show "open_reader_over_cursor_matches_open_path inflate sizes"
    "from_reader_over_cursor_matches_open_path inflate sizes"
    using f c by (simp_all add: open_reader_over_cursor_matches_open_path_def
        from_reader_over_cursor_matches_open_path_def Let_def e)
  show "chunking_backing_still_opens inflate sizes"
    using f o by (simp add: chunking_backing_still_opens_def Let_def e)
qed


text \<open>What the parser refuses, the reader refuses.\<close>

lemma open_tmp_spec:
  assumes "length bs < isize_limit"
  shows "open_result medium_ok med_bytes bs (reader_open (tmp_file bs) ())"
  using file_bytes.open_reader_spec [OF medium_of_ok [OF assms]] by (simp add: reader_open_tmp)

lemma open_tmp_rejected:
  assumes "header_parse (take 104 bs) = Err e" and "length bs < isize_limit"
  shows "is_err (reader_open (tmp_file bs) ())"
  using open_tmp_spec [OF assms(2)] assms(1) by (simp add: open_result_def)

lemma reader_rejection_tests_pass:
  "cluster_bits_too_large_rejected" "cluster_bits_zero_rejected" "cluster_bits_below_minimum_rejected"
  "open_empty_file_returns_err" "open_non_qcow2_file_returns_err"
proof -
  note d = length_qcow2_header_bytes qcow2_header_bytes_parse isize_limit_def
  show "cluster_bits_too_large_rejected"
    by (simp add: cluster_bits_too_large_rejected_def Let_def, rule open_tmp_rejected) (simp_all add: d)
  show "cluster_bits_zero_rejected"
    by (simp add: cluster_bits_zero_rejected_def Let_def, rule open_tmp_rejected) (simp_all add: d)
  show "cluster_bits_below_minimum_rejected"
    by (simp add: cluster_bits_below_minimum_rejected_def Let_def, rule open_tmp_rejected) (simp_all add: d)
  have e: "header_parse (take 104 bs) = Err FileTooSmall" if "length bs < 72" for bs
    using that by (simp add: header_parse_def MIN_HEADER_SIZE_def)
  show "open_empty_file_returns_err"
    unfolding open_empty_file_returns_err_def Let_def
    by (rule open_tmp_rejected [OF e]) (simp_all add: isize_limit_def)
  show "open_non_qcow2_file_returns_err"
    unfolding open_non_qcow2_file_returns_err_def Let_def
    by (rule open_tmp_rejected [OF e]) (simp_all add: isize_limit_def str_def)
qed

lemma open_nonexistent_test:
  "fs (str ''/tmp/no_such.qcow2'') = Inl e \<Longrightarrow> open_nonexistent_returns_err fs"
  by (simp add: open_nonexistent_returns_err_def reader_open_def file_open_def)

lemma l1_cap_test: "l1_size_over_cap_is_rejected"
proof -
  let ?h = "put (qcow2_header_bytes 9) 36 (to_be 4 (push_bit 20 1 + 1 :: u32))"
  have "be_word_at 4 ?h 36 = (push_bit 20 1 + 1 :: u32)"
    by (simp add: be_word_at_put_same length_qcow2_header_bytes)
  then have "header_parse ?h = Ok \<lparr>h_cluster_bits = 9, h_disk_size = 512, h_l1_size = push_bit 20 1 + 1,
      h_l1_table_offset = 0\<rparr>"
    using qcow2_header_bytes_parse [of 9]
    by (simp add: header_parse_Ok_iff decodable_header_def be_u32_word_at be_u64_word_at
        be_word_at_put_other length_qcow2_header_bytes)
  moreover have "unat (push_bit 20 1 + 1 :: u32) = 2 ^ 20 + 1" by simp
  moreover have "length ?h = 72" by (simp add: length_qcow2_header_bytes)
  ultimately show ?thesis
    using open_tmp_spec [of ?h]
    by (simp add: l1_size_over_cap_is_rejected_def Let_def open_result_def isize_limit_def)
qed

text \<open>Reads of the sector and of patched images.\<close>

lemma tmp_one_cluster:
  assumes "one_cluster inflate disk img" and "length img < isize_limit"
  shows "\<exists>r. reader_open (tmp_file img) () = Ok r \<and> rpos r = 0 \<and>
    one_cluster_reader inflate medium_ok med_bytes disk r"
  using medium_one_cluster [OF file_bytes.byte_source_axioms assms] by (simp add: reader_open_tmp)

lemma tmp_read_exact:
  assumes "one_cluster inflate disk img" and "length img < isize_limit"
  shows "expect (reader_open (tmp_file img) ()) (\<lambda>reader.
    expect_op (read_exact (reader_ops file_ops inflate) 512) reader (\<lambda>buf reader. P buf)) = P disk"
proof -
  from tmp_one_cluster [OF assms] obtain r where
    r: "reader_open (tmp_file img) () = Ok r" "rpos r = 0"
      "one_cluster_reader inflate medium_ok med_bytes disk r" by blast
  moreover have "length disk = 512" using assms(1) by (simp add: one_cluster_def)
  ultimately show ?thesis
    using file_guest.one_cluster_read [OF r(3), of 512] by (auto simp: expect_op_Ok)
qed

lemma tmp_seek_read_exact:
  assumes "one_cluster inflate disk img" and "length img < isize_limit" and "unat off + n \<le> 512"
  shows "expect (reader_open (tmp_file img) ()) (\<lambda>reader.
    expect_op (reader_seek (SeekStart off)) reader (\<lambda>_ reader.
    expect_op (read_exact (reader_ops file_ops inflate) n) reader (\<lambda>buf reader. P buf)))
      = P (take n (drop (unat off) disk))"
proof -
  from tmp_one_cluster [OF assms(1,2)] obtain r where
    r: "reader_open (tmp_file img) () = Ok r"
      "one_cluster_reader inflate medium_ok med_bytes disk r" by blast
  from assms(3) have "unat off < isize_limit" by (simp add: isize_limit_def)
  note s = file_guest.one_cluster_seek [OF r(2) this]
  from file_guest.one_cluster_read [OF s(2), of n] assms(3) r(1) s(1) show ?thesis
    by (auto simp: expect_op_Ok)
qed

lemma padded_sector_id: "length sd = 512 \<Longrightarrow> padded_sector sd = sd"
  by (simp add: padded_sector_def)

lemma patched_fits: "off + length bs \<le> 2560 \<Longrightarrow> length (put (test_qcow2 sd) off bs) < isize_limit"
  by (simp add: length_test_qcow2 isize_limit_def)

lemma reader_read_tests_pass:
  "qcow2_virtual_disk_size" "qcow2_read_returns_cluster_data inflate" "seek_and_read_at_offset inflate"
  "zero_plain_cluster_reads_as_zeros inflate" "unallocated_cluster_reads_as_zeros inflate"
  "unset_l1_entry_reads_as_zeros inflate"
proof -
  show "qcow2_virtual_disk_size"
    using tmp_one_cluster [OF test_one_cluster [of no_inflate "replicate 512 0"] test_qcow2_fits]
    by (auto simp: qcow2_virtual_disk_size_def Let_def CLUSTER_SIZE one_cluster_reader_def)
  show "qcow2_read_returns_cluster_data inflate"
    unfolding qcow2_read_returns_cluster_data_def Let_def tmp_read_exact [OF test_one_cluster test_qcow2_fits]
    by (simp add: padded_sector_id)
  show "seek_and_read_at_offset inflate"
    unfolding seek_and_read_at_offset_def Let_def CLUSTER_SIZE
    by (subst tmp_seek_read_exact [OF test_one_cluster test_qcow2_fits])
       (simp_all add: padded_sector_id take_two)
  have m: "entry_meaning 9 1 = ZeroCluster" "entry_meaning 9 0 = Unallocated"
    by (simp_all add: entry_meaning_def)
  show "zero_plain_cluster_reads_as_zeros inflate"
    unfolding zero_plain_cluster_reads_as_zeros_def Let_def
    by (subst tmp_seek_read_exact [OF test_l2_patched]) (simp_all add: m patched_fits)
  show "unallocated_cluster_reads_as_zeros inflate"
    unfolding unallocated_cluster_reads_as_zeros_def Let_def
    by (subst tmp_read_exact [OF test_l2_patched]) (simp_all add: m patched_fits)
  show "unset_l1_entry_reads_as_zeros inflate"
    unfolding unset_l1_entry_reads_as_zeros_def Let_def
    by (subst tmp_read_exact [OF test_l1_cleared]) (simp_all add: patched_fits)
qed


lemma seek_test: "seek_from_current_and_end_and_reject_negative"
proof -
  from tmp_one_cluster [OF test_one_cluster [of no_inflate "replicate 512 0"] test_qcow2_fits] obtain r where
    r: "reader_open (tmp_file (test_qcow2 (replicate 512 0))) () = Ok r" "rpos r = 0"
      "virtual_disk_size r = 512"
    by (auto simp: one_cluster_reader_def)
  have s: "sint (10 :: u64) = 10" "sint (5 :: u64) = 5" "sint (- 4 :: u64) = - 4" "sint (- 1000 :: u64) = - 1000"
    "sint (- 100000 :: u64) = - 100000" "sint (512 :: u64) = 512" "sint (508 :: u64) = 508" "sint (15 :: u64) = 15"
    "sint (- 488 :: u64) = - 488" "sint (- 99488 :: u64) = - 99488"
    by simp_all
  show ?thesis
    by (simp add: seek_from_current_and_end_and_reject_negative_def Let_def r CLUSTER_SIZE expect_op_def
        expect_op_err_def reader_seek_def st_simps sadd_chk_def s)
qed

lemma no_panic_tests_pass:
  assumes "length bytes < 8192"
  shows "open_never_panics_on_arbitrary_bytes bytes" and "open_never_panics_on_valid_magic_plus_garbage bytes"
proof -
  have np: "reader_open (tmp_file bs) () \<noteq> Panic" if "length bs < 8200" for bs
    using open_tmp_spec [of bs] header_parse_no_panic that
    by (auto simp: open_result_def isize_limit_def split: outcome.splits if_splits)
  from assms show "open_never_panics_on_arbitrary_bytes bytes"
    by (simp add: open_never_panics_on_arbitrary_bytes_def np)
  from assms show "open_never_panics_on_valid_magic_plus_garbage bytes"
    by (simp add: open_never_panics_on_valid_magic_plus_garbage_def Let_def np put_def)
qed

text \<open>The compressed images.\<close>

lemma cursor_read_exact:
  assumes "one_cluster inflate disk img" and "length img < isize_limit"
  shows "expect (open_reader cursor_ops (medium_of img)) (\<lambda>reader.
    expect_op (read_exact (reader_ops cursor_ops inflate) 512) reader (\<lambda>buf reader. P buf)) = P disk"
proof -
  from medium_one_cluster [OF cursor_source.byte_source_axioms assms] obtain r where
    r: "open_reader cursor_ops (medium_of img) = Ok r" "rpos r = 0"
      "one_cluster_reader inflate medium_ok med_bytes disk r" by auto
  moreover have "length disk = 512" using assms(1) by (simp add: one_cluster_def)
  ultimately show ?thesis
    using cursor_guest.one_cluster_read [OF r(3), of 512] by (auto simp: expect_op_Ok)
qed

lemma compressed_tests_pass:
  assumes "\<And>plain. inflate (deflate plain) = Some plain"
    and "\<And>plain. length plain \<le> 512 \<Longrightarrow> length (deflate plain) \<le> 131072"
  shows "compressed_cluster_decompresses_to_original_bytes deflate inflate"
    and "short_compressed_stream_resizes_to_full_cluster deflate inflate"
proof -
  note c = cursor_read_exact [OF compressed_one_cluster compressed_fits, of inflate deflate]
  show "compressed_cluster_decompresses_to_original_bytes deflate inflate"
    unfolding compressed_cluster_decompresses_to_original_bytes_def Let_def CLUSTER_SIZE
    by (subst c [OF assms(1)]) (simp_all add: assms(2) padded_sector_id)
  show "short_compressed_stream_resizes_to_full_cluster deflate inflate"
    unfolding short_compressed_stream_resizes_to_full_cluster_def Let_def CLUSTER_SIZE
    by (subst c [OF assms(1)]) (simp_all add: assms(2) padded_sector_def put_def)
qed

text \<open>A stream of the same length that the decoder refuses: the read of the cluster fails.\<close>

lemma read_exact_missing:
  assumes V: "byte_source V ok content pos" and r: "reader_inv ok r" and "rpos r < virtual_disk_size r"
    and n: "0 < n"
    and none: "guest_byte inflate (reader_cb r) (l1_table r) (content (backing r)) (unat (rpos r)) = None"
  shows "\<exists>e t. read_exact (reader_ops V inflate) n r = (Err e, t)"
proof -
  from byte_source.reader_read_guest [OF V assms(2,3) n, of inflate] obtain x t where
    x: "reader_read V inflate n r = (x, t)"
      "served (guest_byte inflate (reader_cb r) (l1_table r) (content (backing r)))
        (unat (rpos r)) (piece_len r n) x"
    by blast
  from x(2) none have "x = Ok [] \<or> (\<exists>e. x = Err e)"
    by (cases x) (auto simp: served_def neq_Nil_conv)
  with x(1) n show ?thesis
    by (auto simp: read_exact.simps [of _ n] reader_ops_def st_bind_def st_simps)
qed

lemma corrupt_test:
  assumes s: "length (deflate (replicate 64 0xAB)) \<le> 131072"
    and none: "inflate (replicate (length (deflate (replicate 64 0xAB))) 0xFF) = None"
  shows "corrupt_compressed_stream_errors_not_panics deflate inflate"
proof -
  define stream where "stream = replicate (length (deflate (replicate 64 0xAB))) (0xFF :: u8)"
  let ?img = "compressed_front (sectors stream) @ stream"
  have l: "length stream = length (deflate (replicate 64 0xAB))" by (simp add: stream_def)
  then have img: "take 2048 (compressed_qcow2 deflate (replicate 64 0xAB)) @
      replicate (length (compressed_qcow2 deflate (replicate 64 0xAB)) - 2048) 0xFF = ?img"
    by (simp add: compressed_qcow2_eq compressed_front_length sectors_def stream_def)
  have ok: "medium_ok (medium_of ?img)"
    using s l by (simp add: medium_ok_def compressed_front_length isize_limit_def)
  from cursor_source.open_reader_spec [OF ok] obtain r where
    o: "open_reader cursor_ops (medium_of ?img) = Ok r"
      "opened_from medium_ok med_bytes ?img test_fields r"
    by (auto simp: open_result_def compressed_parse compressed_front_length test_fields_def
        simp del: take_append split: outcome.splits)
  then have f: "reader_inv medium_ok r" "med_bytes (backing r) = ?img" "virtual_disk_size r = 512"
    "reader_cb r = 9" "l1_table r = [1536]" "rpos r = 0"
    using compressed_tables(1) by (simp_all add: opened_from_def test_fields_def del: take_append drop_append)
  have "guest_byte inflate 9 [1536] ?img 0 = None"
    using compressed_guest [of stream 0 inflate] s l none by (simp add: stream_def)
  with read_exact_missing [OF cursor_source.byte_source_axioms f(1), of 512 inflate] f obtain e t where
    "read_exact (reader_ops cursor_ops inflate) 512 r = (Err e, t)"
    by auto
  with o(1) show ?thesis
    unfolding corrupt_compressed_stream_errors_not_panics_def Let_def CLUSTER_SIZE
    by (simp add: img expect_op_err_Err)
qed

lemma image_source_test:
  assumes "\<And>s. is_empty s \<longleftrightarrow> source_len s = 0"
  shows "qcow2_reader_is_an_image_source inflate vfs_io is_empty"
proof -
  let ?sector = "put (replicate 512 0) 0 (str ''QCOWMRK!'')"
  have p: "padded_sector ?sector = ?sector" by (rule padded_sector_id) (simp add: str_def)
  from medium_one_cluster [OF cursor_source.byte_source_axioms test_one_cluster test_qcow2_fits] obtain r where
    o: "open_reader cursor_ops (medium_of (test_qcow2 ?sector)) = Ok r"
    and r: "one_cluster_reader inflate medium_ok med_bytes (padded_sector ?sector) r"
    by fastforce
  then have d: "whole_disk inflate medium_ok med_bytes r" "reader_disk inflate med_bytes r = ?sector"
    "virtual_disk_size r = 512"
    by (simp_all add: one_cluster_reader_def p)
  from d(1) have s: "cursor_guest.shared r (source_new r)"
    by (simp add: cursor_guest.shared_def source_new_def cursor_source.same_image_refl whole_disk_def)
  from cursor_guest.read_at_whole [OF s d(1), of vfs_io 0 8] obtain s1 where
    s1: "read_at cursor_ops inflate vfs_io 0 8 (source_new r) = (Ok (take 8 ?sector), s1)"
      "cursor_guest.shared r s1"
    by (auto simp: d)
  from cursor_guest.read_at_whole [OF s1(2) d(1), of vfs_io 512 16] obtain s2 where
    "read_at cursor_ops inflate vfs_io 512 16 s1 = (Ok (take 16 (drop 512 ?sector)), s2)"
    by (auto simp: d)
  moreover have "length ?sector = 512" "take 8 ?sector = str ''QCOWMRK!''" "length (str ''QCOWMRK!'') = 8"
    by (simp_all add: put_def str_def)
  ultimately show ?thesis
    using o s1(1) assms d(3)
    by (simp add: qcow2_reader_is_an_image_source_def CLUSTER_SIZE expect_op_Ok source_new_def source_len_def)
qed

text \<open>
  The suite, and what it relies on of the codec of flate2: the decoder inverts the encoder, a stream
  is not empty and not absurdly longer than its data, and a run of 0xFF, whose first block has the
  reserved type, is refused.
\<close>

definition codec_laws :: "(u8 list \<Rightarrow> u8 list) \<Rightarrow> (u8 list \<Rightarrow> u8 list option) \<Rightarrow> bool" where
  "codec_laws deflate inflate \<longleftrightarrow>
     (\<forall>plain. inflate (deflate plain) = Some plain \<and> deflate plain \<noteq> []) \<and>
     (\<forall>plain. length plain \<le> 512 \<longrightarrow> length (deflate plain) \<le> 131072) \<and>
     (\<forall>n. 0 < n \<longrightarrow> inflate (replicate n 0xFF) = None)"

definition reader_suite ::
  "(u8 list \<Rightarrow> u8 list) \<Rightarrow> (u8 list \<Rightarrow> u8 list option) \<Rightarrow> (nat \<Rightarrow> nat) \<Rightarrow> rstring file_system
     \<Rightarrow> u8 list \<Rightarrow> bool" where
  "reader_suite deflate inflate sizes fs bytes \<longleftrightarrow>
     open_reader_over_cursor_matches_open_path inflate sizes \<and>
     chunking_backing_still_opens inflate sizes \<and>
     from_reader_over_cursor_matches_open_path inflate sizes \<and>
     cluster_bits_too_large_rejected \<and>
     cluster_bits_zero_rejected \<and>
     cluster_bits_below_minimum_rejected \<and>
     open_nonexistent_returns_err fs \<and>
     open_empty_file_returns_err \<and>
     open_non_qcow2_file_returns_err \<and>
     qcow2_virtual_disk_size \<and>
     qcow2_read_returns_cluster_data inflate \<and>
     seek_and_read_at_offset inflate \<and>
     open_never_panics_on_arbitrary_bytes bytes \<and>
     open_never_panics_on_valid_magic_plus_garbage bytes \<and>
     zero_plain_cluster_reads_as_zeros inflate \<and>
     compressed_cluster_decompresses_to_original_bytes deflate inflate \<and>
     short_compressed_stream_resizes_to_full_cluster deflate inflate \<and>
     corrupt_compressed_stream_errors_not_panics deflate inflate \<and>
     unallocated_cluster_reads_as_zeros inflate \<and>
     unset_l1_entry_reads_as_zeros inflate \<and>
     seek_from_current_and_end_and_reject_negative \<and>
     l1_size_over_cap_is_rejected"

lemma reader_suite:
  assumes "codec_laws deflate inflate" and "fs (str ''/tmp/no_such.qcow2'') = Inl e"
    and "length bytes < 8192"
  shows "reader_suite deflate inflate sizes fs bytes"
proof -
  have c: "\<And>plain. inflate (deflate plain) = Some plain"
    "\<And>plain. length plain \<le> 512 \<Longrightarrow> length (deflate plain) \<le> 131072"
    using assms(1) by (auto simp: codec_laws_def)
  have "corrupt_compressed_stream_errors_not_panics deflate inflate"
    using assms(1) by (intro corrupt_test) (simp_all add: codec_laws_def)
  with compressed_tests_pass [OF c] assms(2,3) show ?thesis
    by (simp add: reader_suite_def backing_tests_pass reader_rejection_tests_pass open_nonexistent_test
        reader_read_tests_pass no_panic_tests_pass seek_test l1_cap_test)
qed

lemma stored_codec: "codec_laws stored unstored"
proof -
  have "unstored (replicate n 0xFF) = None" if "0 < n" for n
    using that by (cases n) (simp_all add: unstored_def)
  then show ?thesis by (simp add: codec_laws_def stored_def) (simp add: unstored_def)
qed

end
