(* ===== verification/Snapshots_Tests.thy ===== *)
theory Snapshots_Tests
  imports Snapshots Testkit
begin

text \<open>
  The tests of core/src/snapshots.rs, each as the bool of its assertions, and the proofs that they
  pass, over the specification \<^const>\<open>snapshots_result\<close> of the enumeration.
\<close>

section \<open>The tests\<close>

text \<open>\<open>entry\<close>, from its arguments.\<close>

definition entry ::
  "u32 \<Rightarrow> u32 \<Rightarrow> u32 \<Rightarrow> u8 list \<Rightarrow> u8 list \<Rightarrow> u8 list \<Rightarrow> u8 list" where
  "entry secs nsecs vm_state_size extra ident name =
     entry_encode \<lparr>e_secs = secs, e_nsecs = nsecs, e_vm_state_size = vm_state_size,
       e_extra = extra, e_id = ident, e_name = name\<rparr>"

definition no_snapshots_returns_empty :: bool where
  "no_snapshots_returns_empty =
    (let img = snapshot_header 0 0; f = tmp_file img in
     expect (snapshots f ()) (\<lambda>snaps. snaps = []))"

definition nonzero_count_but_zero_offset_returns_empty :: bool where
  "nonzero_count_but_zero_offset_returns_empty =
    (let img = snapshot_header 3 0; f = tmp_file img in
     expect (snapshots f ()) (\<lambda>snaps. snaps = []))"

definition snapshots_bad_magic_is_rejected :: bool where
  "snapshots_bad_magic_is_rejected =
    (let img = (snapshot_header 0 0)[0 := 0]; f = tmp_file img in
     case snapshots f () of Err BadMagic \<Rightarrow> True | _ \<Rightarrow> False)"

definition snapshots_too_small_is_rejected :: bool where
  "snapshots_too_small_is_rejected =
    (let f = tmp_file (replicate 8 0) in
     case snapshots f () of Err FileTooSmall \<Rightarrow> True | _ \<Rightarrow> False)"

definition snapshots_open_nonexistent_is_io_error :: "rstring file_system \<Rightarrow> bool" where
  "snapshots_open_nonexistent_is_io_error fs =
    is_err (snapshots fs (str ''/tmp/no_such_qcow2_snaps.qcow2''))"

definition parses_two_entries_with_extra_data :: bool where
  "parses_two_entries_with_extra_data =
    (let snap_off = 65536;
         img = snapshot_header 2 snap_off;
         img = resize img (unat snap_off) 0;
         extra1 = put (replicate 16 0) 0 (to_be 8 (4096 :: u64));
         img = img @ entry 1700000000 123 4096 extra1 (str ''1'') (str ''alpha'');
         img = img @ entry 1700000050 0 0 [] (str ''2'') (str ''beta-name'');
         f = tmp_file img in
     expect (snapshots f ()) (\<lambda>snaps.
       length snaps = 2 \<and>
       snap_id (snaps ! 0) = str ''1'' \<and> snap_name (snaps ! 0) = str ''alpha'' \<and>
       snap_date_unix_secs (snaps ! 0) = 1700000000 \<and> snap_date_nsecs (snaps ! 0) = 123 \<and>
       snap_vm_state_size (snaps ! 0) = 4096 \<and>
       snap_id (snaps ! 1) = str ''2'' \<and> snap_name (snaps ! 1) = str ''beta-name'' \<and>
       snap_date_unix_secs (snaps ! 1) = 1700000050 \<and> snap_vm_state_size (snaps ! 1) = 0))"

definition truncated_table_stops_gracefully :: bool where
  "truncated_table_stops_gracefully =
    (let snap_off = 512;
         img = snapshot_header 3 snap_off;
         img = resize img (unat snap_off) 0;
         img = img @ entry 1700000000 0 0 [] (str ''1'') (str ''only'');
         img = img @ replicate 10 0;
         f = tmp_file img in
     expect (snapshots f ()) (\<lambda>snaps.
       length snaps = 1 \<and> snap_name (snaps ! 0) = str ''only''))"

definition count_is_capped_to_max_snapshots :: bool where
  "count_is_capped_to_max_snapshots =
    (let snap_off = 512;
         img = snapshot_header (- 1) snap_off;
         img = resize img (unat snap_off) 0;
         f = tmp_file img in
     expect (snapshots f ()) (\<lambda>snaps. snaps = []))"

definition oversized_string_sizes_are_capped :: bool where
  "oversized_string_sizes_are_capped =
    (let snap_off = 512;
         img = snapshot_header 1 snap_off;
         img = resize img (unat snap_off) 0;
         e = replicate SNAPSHOT_HEADER_FIXED 0;
         e = put e 12 (to_be 2 (- 1 :: u16));
         e = put e 14 (to_be 2 (- 1 :: u16));
         img = img @ e;
         f = tmp_file img in
     expect (snapshots f ()) (\<lambda>snaps. snaps = []))"

definition name_read_failure_after_id_stops_gracefully :: bool where
  "name_read_failure_after_id_stops_gracefully =
    (let snap_off = 512;
         img = snapshot_header 1 snap_off;
         img = resize img (unat snap_off) 0;
         e = replicate SNAPSHOT_HEADER_FIXED 0;
         e = put e 12 (to_be 2 (1 :: u16));
         e = put e 14 (to_be 2 (64 :: u16));
         img = img @ e;
         img = img @ str ''1'';
         f = tmp_file img in
     expect (snapshots f ()) (\<lambda>snaps. snaps = []))"

definition empty_id_and_name_strings_parse :: bool where
  "empty_id_and_name_strings_parse =
    (let snap_off = 512;
         img = snapshot_header 1 snap_off;
         img = resize img (unat snap_off) 0;
         img = img @ entry 1700000000 0 0 [] [] [];
         f = tmp_file img in
     expect (snapshots f ()) (\<lambda>snaps.
       length snaps = 1 \<and> snap_id (snaps ! 0) = [] \<and> snap_name (snaps ! 0) = []))"

definition final_entry_padding_at_eof_is_harmless :: bool where
  "final_entry_padding_at_eof_is_harmless =
    (let snap_off = 512;
         img = snapshot_header 1 snap_off;
         img = resize img (unat snap_off) 0;
         e = replicate SNAPSHOT_HEADER_FIXED 0;
         e = put e 12 (to_be 2 (1 :: u16));
         e = put e 14 (to_be 2 (2 :: u16));
         img = img @ e;
         img = img @ str ''1'';
         img = img @ str ''ok'';
         f = tmp_file img in
     expect (snapshots f ()) (\<lambda>snaps.
       length snaps = 1 \<and> snap_id (snaps ! 0) = str ''1'' \<and> snap_name (snaps ! 0) = str ''ok''))"

definition extra_data_runs_off_end_stops_gracefully :: bool where
  "extra_data_runs_off_end_stops_gracefully =
    (let snap_off = 512;
         img = snapshot_header 1 snap_off;
         img = resize img (unat snap_off) 0;
         e = replicate SNAPSHOT_HEADER_FIXED 0;
         e = put e 36 (to_be 4 (1000 :: u32));
         img = img @ e;
         f = tmp_file img in
     expect (snapshots f ()) (\<lambda>snaps. snaps = []))"

section \<open>They pass\<close>

lemma snapshots_of_image:
  assumes "length (snapshot_image nb off es rest) < isize_limit" and "unat off < isize_limit"
  shows "snapshots (tmp_file (snapshot_image nb off es rest)) () = snapshots_result (snapshot_image nb off es rest)"
  using snapshots_bytes(2) [of "tmp_file (snapshot_image nb off es rest)" "()"] assms
  by (simp add: tmp_file_def snapshot_image_fields)

text \<open>A header alone is an image without entries.\<close>

lemma snapshot_header_image: "snapshot_header nb 0 = snapshot_image nb 0 [] []"
  by (simp add: snapshot_image_def)

lemma resized_header_image: "104 \<le> unat off \<Longrightarrow>
    resize (snapshot_header nb off) (unat off) 0 @ rest = snapshot_image nb off [] rest"
  by (simp add: resize_def snapshot_image_def)

lemma entry_images:
  assumes "104 \<le> unat off"
  shows "resize (snapshot_header nb off) (unat off) 0 @ entry a b c x i n = snapshot_image nb off
      [\<lparr>e_secs = a, e_nsecs = b, e_vm_state_size = c, e_extra = x, e_id = i, e_name = n\<rparr>] []"
    and "(resize (snapshot_header nb off) (unat off) 0 @ entry a b c x i n) @ rest = snapshot_image nb off
      [\<lparr>e_secs = a, e_nsecs = b, e_vm_state_size = c, e_extra = x, e_id = i, e_name = n\<rparr>] rest"
    and "(resize (snapshot_header nb off) (unat off) 0 @ entry a b c x i n) @ entry a' b' c' x' i' n'
      = snapshot_image nb off
          [\<lparr>e_secs = a, e_nsecs = b, e_vm_state_size = c, e_extra = x, e_id = i, e_name = n\<rparr>,
           \<lparr>e_secs = a', e_nsecs = b', e_vm_state_size = c', e_extra = x', e_id = i', e_name = n'\<rparr>] []"
  using assms by (simp_all add: snapshot_image_def entry_def resize_def)

lemma length_snapshot_image: "104 \<le> unat off \<Longrightarrow> length (snapshot_image nb off [] rest) = unat off + length rest"
  by (simp add: snapshot_image_def)

lemma empty_table_tests_pass:
  "no_snapshots_returns_empty" "nonzero_count_but_zero_offset_returns_empty"
  "snapshots_bad_magic_is_rejected" "snapshots_too_small_is_rejected"
proof -
  have e: "snapshots (tmp_file (snapshot_header nb 0)) () = Ok []" for nb
    unfolding snapshot_header_image
    by (subst snapshots_of_image) (simp_all add: snapshots_result_def snapshot_image_fields,
        simp_all add: snapshot_image_def isize_limit_def)
  show "no_snapshots_returns_empty" "nonzero_count_but_zero_offset_returns_empty"
    by (simp_all add: no_snapshots_returns_empty_def nonzero_count_but_zero_offset_returns_empty_def e)
  show "snapshots_too_small_is_rejected"
    using snapshots_bytes(2) [of "tmp_file (replicate 8 0)" "()" "replicate 8 0"]
    by (simp add: snapshots_too_small_is_rejected_def tmp_file_def snapshots_result_def isize_limit_def
        be_word_at_out_of_range)
  let ?b = "(snapshot_header 0 0)[0 := 0]"
  have "be_word_at 4 ?b 0 \<noteq> MAGIC" by (rule first_byte_cleared) simp
  moreover have "be_word_at 8 ?b 64 = (0 :: u64)"
  proof -
    have "?b = put (snapshot_header 0 0) 0 [0]" by (simp add: put_def upd_conv_take_nth_drop)
    then show ?thesis
      using snapshot_image_fields(3) [of 0 0 "[]" "[]"]
      by (simp add: be_word_at_put_other flip: snapshot_header_image)
  qed
  ultimately show "snapshots_bad_magic_is_rejected"
    using snapshots_bytes(2) [of "tmp_file ?b" "()" ?b]
    by (simp add: snapshots_bad_magic_is_rejected_def tmp_file_def snapshots_result_def isize_limit_def)
qed

lemma snapshots_nonexistent_test:
  "fs (str ''/tmp/no_such_qcow2_snaps.qcow2'') = Inl e \<Longrightarrow> snapshots_open_nonexistent_is_io_error fs"
  by (simp add: snapshots_open_nonexistent_is_io_error_def snapshots_def file_open_def)

lemmas entry_defs = entry_snapshot_def entry_ok_def str_def isize_limit_def

text \<open>Tables of whole entries, with a rest that is too short for one more.\<close>

lemma snapshots_of_entries:
  assumes "length (snapshot_image nb off es rest) < isize_limit" and "104 \<le> unat off"
    and "list_all entry_ok es" and "length es \<le> 65536" and "length es \<le> unat nb" 
    and "unat nb = length es \<or> length rest < 40"
  shows "snapshots (tmp_file (snapshot_image nb off es rest)) () = Ok (map entry_snapshot es)"
proof -
  have "unat off < isize_limit" using assms(1,2) by (simp add: snapshot_image_def)
  with snapshots_result_image [OF assms(2-6)] snapshots_of_image [OF assms(1)] show ?thesis by simp
qed

lemma length_entry_list: "length (snapshot_image nb off es rest)
    = 104 + (unat off - 104) + sum_list (map (length \<circ> entry_encode) es) + length rest"
  by (simp add: snapshot_image_def length_concat comp_def)

lemma whole_entry_tests_pass:
  "parses_two_entries_with_extra_data" "truncated_table_stops_gracefully"
  "count_is_capped_to_max_snapshots" "empty_id_and_name_strings_parse"
proof -
  note sizes = length_entry_list length_entry_encode padding_def entry_defs
  show "parses_two_entries_with_extra_data"
    unfolding parses_two_entries_with_extra_data_def Let_def
    by (subst entry_images(3), simp, subst snapshots_of_entries)
       (simp_all add: sizes from_utf8_lossy_ascii)
  show "truncated_table_stops_gracefully"
    unfolding truncated_table_stops_gracefully_def Let_def
    by (subst entry_images(2), simp, subst snapshots_of_entries)
       (simp_all add: sizes from_utf8_lossy_ascii)
  show "count_is_capped_to_max_snapshots"
    unfolding count_is_capped_to_max_snapshots_def Let_def 
    using snapshots_of_entries [of "- 1" 512 "[]" "[]"] resized_header_image [of 512 "- 1" "[]"]
    by (simp add: isize_limit_def length_snapshot_image)
  show "empty_id_and_name_strings_parse"
    unfolding empty_id_and_name_strings_parse_def Let_def
    by (subst entry_images(1), simp, subst snapshots_of_entries)
       (simp_all add: sizes from_utf8_lossy_ascii)
qed

text \<open>A table with one record, whose fixed part is written byte by byte.\<close>

lemma record_fields:
  assumes "length e = 40"
  shows "take 40 (drop 512 (snapshot_image 1 512 [] (e @ tail))) = e"
    and "drop (552 + k) (snapshot_image 1 512 [] (e @ tail)) = drop k tail"
    and "length (snapshot_image 1 512 [] (e @ tail)) = 552 + length tail"
  using assms by (simp_all add: snapshot_image_def)

lemma snapshots_of_record:
  assumes e: "length e = 40" and t: "length tail < 2 ^ 32"
  shows "snapshots (tmp_file ((resize (snapshot_header 1 512) (unat (512 :: u64)) 0 @ e) @ tail)) () =
    Ok (let idl = unat (be_word_at 2 e 12 :: u16);
            namel = unat (be_word_at 2 e 14 :: u16);
            extra = min (unat (be_word_at 4 e 36 :: u32)) 65536 in
        if length tail < extra + idl + namel then []
        else [\<lparr>snap_id = from_utf8_lossy (take idl (drop extra tail)),
               snap_name = from_utf8_lossy (take namel (drop (extra + idl) tail)),
               snap_date_unix_secs = be_word_at 4 e 16, snap_date_nsecs = be_word_at 4 e 20,
               snap_vm_state_size = be_word_at 4 e 32\<rparr>])"
proof -
  let ?img = "snapshot_image 1 512 [] (e @ tail)"
  note f = record_fields [where tail = tail, OF e]
  have "(resize (snapshot_header 1 512) (unat (512 :: u64)) 0 @ e) @ tail = ?img"
    using resized_header_image [of 512 1 "e @ tail"] by simp
  moreover have "snapshots (tmp_file ?img) () = snapshots_result ?img"
    using t f(3) by (intro snapshots_of_image) (simp_all add: isize_limit_def)
  moreover have "snapshots_result ?img = Ok (snapshot_table 1 ?img 512)"
    using f(3) by (simp add: snapshots_result_def snapshot_image_fields isize_limit_def)
  moreover have "drop (512 + 40 + n) ?img = drop n tail" for n using f(2) [of n] by simp
  ultimately show ?thesis
    using f(3) by (simp add: snapshot_at_def f(1) Let_def add.assoc split: option.split)
qed

text \<open>The same at the end of the file.\<close>

lemmas snapshots_of_last_record = snapshots_of_record [where tail = "[]", unfolded append_Nil2]

lemma raw_record_tests_pass:
  "oversized_string_sizes_are_capped" "name_read_failure_after_id_stops_gracefully"
  "final_entry_padding_at_eof_is_harmless" "extra_data_runs_off_end_stops_gracefully"
proof -
  note d = Let_def SNAPSHOT_HEADER_FIXED_def 
  note w = Let_def be_word_at_put_same be_word_at_put_other be_word_at_zeros str_def
  have m: "0 < unat (- 1 :: u16)" by (simp add: unsigned_minus_1_eq_mask mask_eq_exp_minus_1)
  show "oversized_string_sizes_are_capped"
    unfolding oversized_string_sizes_are_capped_def d
    by (subst snapshots_of_last_record) (simp_all add: w m)
  show "name_read_failure_after_id_stops_gracefully"
    unfolding name_read_failure_after_id_stops_gracefully_def d
    by (subst snapshots_of_record) (simp_all add: w)
  show "extra_data_runs_off_end_stops_gracefully"
    unfolding extra_data_runs_off_end_stops_gracefully_def d
    by (subst snapshots_of_last_record) (simp_all add: w)
  have a: "((h @ e) @ x) @ y = (h @ e) @ (x @ y)" for h e x y :: "u8 list" by simp
  show "final_entry_padding_at_eof_is_harmless"
    unfolding final_entry_padding_at_eof_is_harmless_def d a
    by (subst snapshots_of_record) (simp_all add: w from_utf8_lossy_ascii)
qed

text \<open>The suite.\<close>

definition snapshots_suite ::
  "rstring file_system \<Rightarrow> bool" where
  "snapshots_suite fs \<longleftrightarrow>
     no_snapshots_returns_empty \<and>
     nonzero_count_but_zero_offset_returns_empty \<and>
     snapshots_bad_magic_is_rejected \<and>
     snapshots_too_small_is_rejected \<and>
     snapshots_open_nonexistent_is_io_error fs \<and>
     parses_two_entries_with_extra_data \<and>
     truncated_table_stops_gracefully \<and>
     count_is_capped_to_max_snapshots \<and>
     oversized_string_sizes_are_capped \<and>
     name_read_failure_after_id_stops_gracefully \<and>
     empty_id_and_name_strings_parse \<and>
     final_entry_padding_at_eof_is_harmless \<and>
     extra_data_runs_off_end_stops_gracefully"

lemma snapshots_suite: "fs (str ''/tmp/no_such_qcow2_snaps.qcow2'') = Inl e \<Longrightarrow> snapshots_suite fs"
  by (simp add: snapshots_suite_def empty_table_tests_pass whole_entry_tests_pass raw_record_tests_pass
      snapshots_nonexistent_test)

end
