(* ===== verification/Refcount_Fixture.thy ===== *)
theory Refcount_Fixture
  imports Refcount
begin

text \<open>
  The image builders of core/src/refcount.rs (module \<open>tests\<close>): an image with one data cluster,
  number 5, whose refcount has a given width and value.  The round trip through
  \<open>refcount_report\<close> holds for every width and every value, not only for those the tests pick.
\<close>

section \<open>The builders\<close>

definition CB :: u32 where "CB = 9"

definition CS :: u64 where "CS = push_bit (unat CB) 1"

text \<open>
  What both builders write first: the header fields, L1[0] with the copied flag, and the entry of
  the refcount table.  Clusters: 0 header, 1 L1, 2 refcount table, 3 refcount block, 4 L2, 5 data.
\<close>

definition rc_tables :: "u32 \<Rightarrow> u8 list" where
  "rc_tables refcount_order =
    (let img = replicate (unat (CS * 6)) 0;
         img = put img 0 (to_be 4 MAGIC);
         img = put img 4 (to_be 4 (3 :: u32));
         img = put img 20 (to_be 4 CB);
         img = put img 24 (to_be 8 CS);
         img = put img 36 (to_be 4 (1 :: u32));
         img = put img 40 (to_be 8 CS);
         img = put img 48 (to_be 8 (CS * 2));
         img = put img 56 (to_be 4 (1 :: u32));
         img = put img 96 (to_be 4 refcount_order);
         img = put img 100 (to_be 4 (104 :: u32));
         img = put img (unat CS) (to_be 8 (CS * 4 OR push_bit 63 1))
     in put img (unat (CS * 2)) (to_be 8 (CS * 3)))"

text \<open>\<open>build\<close>: a 16-bit refcount.\<close>

definition rc_build :: "u16 \<Rightarrow> u8 list" where
  "rc_build value =
    (let data_cluster_idx = unat (CS * 5 div CS);
         block_entry = unat (CS * 3) + data_cluster_idx * 2;
         img = put (rc_tables 4) block_entry (to_be 2 value)
     in put img (unat (CS * 4)) (to_be 8 (CS * 5 OR push_bit 63 1)))"

text \<open>
  The \<open>match\<close> of \<open>build_order\<close>: the bytes of a refcount of a given width.  A width that is not one
  of the seven is the \<open>unreachable!\<close>, a panic.
\<close>

definition rc_entry :: "u64 \<Rightarrow> u64 \<Rightarrow> u64 \<Rightarrow> ('e, u8 list) outcome" where
  "rc_entry refcount_bits bit_off value =
    (if refcount_bits = 8 then Ok [ucast value]
     else if refcount_bits = 16 then Ok (to_be 2 (ucast value :: u16))
     else if refcount_bits = 32 then Ok (to_be 4 (ucast value :: u32))
     else if refcount_bits = 64 then Ok (to_be 8 value)
     else if refcount_bits = 1 \<or> refcount_bits = 2 \<or> refcount_bits = 4 then
       let within = ucast (bit_off mod 8) :: u32 in
       and_then (sub_chk 8 within) (\<lambda>after.
       and_then (sub_chk after (ucast refcount_bits)) (\<lambda>shift.
       and_then (shl_chk 1 (ucast refcount_bits)) (\<lambda>top.
       and_then (sub_chk top 1) (\<lambda>mask.
       and_then (shl_chk (value AND mask) shift) (\<lambda>v.
       Ok [ucast (v :: u64)])))))
     else Panic)"

definition rc_build_order :: "u32 \<Rightarrow> u64 \<Rightarrow> ('e, u8 list) outcome" where
  "rc_build_order refcount_order value =
    and_then (shl_chk 1 refcount_order) (\<lambda>refcount_bits.
    let data_cluster_idx = CS * 5 div CS in
    and_then (mul_chk data_cluster_idx refcount_bits) (\<lambda>bit_off.
    let byte_off = CS * 3 + bit_off div 8 in
    and_then (rc_entry refcount_bits bit_off value) (\<lambda>bs.
    Ok (put (put (rc_tables refcount_order) (unat byte_off) bs)
          (unat (CS * 4)) (to_be 8 (CS * 5 OR push_bit 63 1))))))"

section \<open>The layout of a built image\<close>

lemma CS: "CS = 512"
  by (simp add: CS_def CB_def)


lemma rc_words:
  "CS * 4 OR push_bit 63 1 = 0x8000000000000800" "CS * 5 OR push_bit 63 1 = 0x8000000000000A00"
  "CS * 2 = 1024" "CS * 3 = 1536" "unat (CS * 6) = 3072" "unat CS = 512" "unat (CS * 2) = 1024"
  "unat (CS * 4) = 2048" "CS * 5 div CS = 5" "unat (1024 :: u64) = 1024"
  by (simp_all add: CS)

text \<open>An image of the builders: the writes of the tables, of the refcount and of L2[0].\<close>

definition rc_writes :: "u32 \<Rightarrow> nat \<Rightarrow> u8 list \<Rightarrow> (nat \<times> u8 list) list" where
  "rc_writes ro o1 bs =
    [(0, to_be 4 MAGIC), (4, to_be 4 (3 :: u32)), (20, to_be 4 CB), (24, to_be 8 CS),
     (36, to_be 4 (1 :: u32)), (40, to_be 8 CS), (48, to_be 8 (1024 :: u64)),
     (56, to_be 4 (1 :: u32)), (96, to_be 4 ro), (100, to_be 4 (104 :: u32)),
     (512, to_be 8 (0x8000000000000800 :: u64)), (1024, to_be 8 (1536 :: u64)),
     (1536 + o1, bs), (2048, to_be 8 (0x8000000000000A00 :: u64))]"

definition rc_image :: "u32 \<Rightarrow> nat \<Rightarrow> u8 list \<Rightarrow> u8 list" where
  "rc_image ro o1 bs = writes (rc_writes ro o1 bs) (replicate 3072 0)"

lemma rc_image_put:
  "put (put (rc_tables ro) (1536 + o1) bs) 2048 (to_be 8 (0x8000000000000A00 :: u64))
    = rc_image ro o1 bs"
  by (simp only: rc_image_def rc_writes_def writes_def rc_tables_def Let_def rc_words foldl.simps prod.case)

lemma rc_writes_ok:
  assumes "o1 + length bs \<le> 512"
  shows "writes_fit 3072 (rc_writes ro o1 bs)" and "writes_ascend (rc_writes ro o1 bs)"
  using assms by (simp_all add: rc_writes_def writes_fit_def writes_ascend_def)

lemma rc_image_length: "o1 + length bs \<le> 512 \<Longrightarrow> length (rc_image ro o1 bs) = 3072"
  by (simp add: rc_image_def rc_writes_ok)

lemma rc_image_write:
  assumes "o1 + length bs \<le> 512" and "(off, cs) \<in> set (rc_writes ro o1 bs)"
  shows "take (length cs) (drop off (rc_image ro o1 bs)) = cs"
  using region_of_write [OF _ rc_writes_ok(2) [OF assms(1)] assms(2), of "replicate 3072 0"]
    rc_writes_ok(1) [OF assms(1)]
  by (simp add: rc_image_def)

lemma rc_image_word:
  assumes "o1 + length bs \<le> 512" and "(off, to_be n w) \<in> set (rc_writes ro o1 bs)"
    and "LENGTH('a) \<le> 8 * n"
  shows "be_word_at n (rc_image ro o1 bs) off = (w :: 'a::len word)"
  using word_of_write [OF _ rc_writes_ok(2) [OF assms(1)] assms(2,3), of "replicate 3072 0"]
    rc_writes_ok(1) [OF assms(1)]
  by (simp add: rc_image_def)

lemma rc_image_fields:
  fixes ro :: u32
  assumes "o1 + length bs \<le> 512" and img: "img = rc_image ro o1 bs"
  shows "be_word_at 4 img 0 = MAGIC" and "be_word_at 4 img 4 = (3 :: u32)"
    and "be_word_at 4 img 20 = CB" and "be_word_at 4 img 36 = (1 :: u32)"
    and "be_word_at 8 img 40 = CS" and "be_word_at 8 img 48 = (1024 :: u64)"
    and "be_word_at 4 img 56 = (1 :: u32)" and "be_word_at 4 img 96 = ro"
  unfolding img by (rule rc_image_word [OF assms(1)]; simp add: rc_writes_def)+

text \<open>A cluster of the image with one entry at its start and zeros behind it.\<close>

lemma rc_image_table:
  assumes "o1 + length bs \<le> 512" and "(off, to_be 8 w) \<in> set (rc_writes ro o1 bs)"
    and "off \<in> {512, 1024, 2048}"
  shows "table_at (rc_image ro o1 bs) off 64 = w # replicate 63 0"
proof -
  have "take 504 (drop (off + 8) (rc_image ro o1 bs)) = take 504 (drop (off + 8) (replicate 3072 0))"
    unfolding rc_image_def using assms(1,3) 
    by (intro region_untouched) (auto simp: rc_writes_ok, auto simp: rc_writes_def away_from_def)
  also have "\<dots> = replicate (8 * 63) 0" using assms(3) by auto
  finally have "take (8 + 504) (drop off (rc_image ro o1 bs)) = to_be 8 w @ replicate (8 * 63) 0"
    using rc_image_write [OF assms(1,2)] by (simp only: region_split length_to_be)
  then have "be_u64_table (take (8 * 64) (drop off (rc_image ro o1 bs))) = w # replicate 63 0"
    using be_u64_table_first [of w 63] by simp
  then show ?thesis
    using assms(1,3) by (auto simp: table_at_def rc_image_length)
qed


lemma rc_image_l1:
  assumes "o1 + length bs \<le> 512"
  shows "table_at (rc_image ro o1 bs) 512 1 = [0x8000000000000800]"
proof -
  have "take (8 * 1) (drop 512 (rc_image ro o1 bs)) = to_be 8 (0x8000000000000800 :: u64)"
    using rc_image_write [OF assms, of 512 "to_be 8 (0x8000000000000800 :: u64)" ro]
    by (simp add: rc_writes_def)
  then show ?thesis
    using assms be_u64_table_first [of "0x8000000000000800" 0]
    by (simp add: table_at_def rc_image_length)
qed

section \<open>The report of a built image\<close>

text \<open>The one data cluster of the image is number 5, at offset 2560.\<close>

lemma rc_image_hosts:
  assumes "o1 + length bs \<le> 512"
  shows "reachable_hosts 9 (rc_image ro o1 bs) [0x8000000000000800] = [2560]"
proof -
  have t: "table_at (rc_image ro o1 bs) 2048 64 = 0x8000000000000A00 # replicate 63 0"
    by (rule rc_image_table [OF assms]) (simp_all add: rc_writes_def)
  have h: "host_field 0x8000000000000800 = 2048" "l2_host 0x8000000000000A00 = Some 2560"
    "l2_host 0 = None"
    by (simp_all add: host_field_def l2_host_def)
  show ?thesis
    by (simp add: reachable_hosts_def h t List.map_filter_simps)
qed

lemma rc_image_report:
  assumes "o1 + length bs \<le> 512" and "unat ro \<le> 6"
    and "report_result (rc_image ro o1 bs) x"
    and v: "refcount_value 9 (unat ro) (1536 # replicate 63 0) (rc_image ro o1 bs) 5 = Some v"
  shows "x = Ok \<lparr>rr_refcount_order = ro, rr_table_offset = 1024, rr_table_clusters = 1,
    rr_allocated_clusters = 1, rr_orphan_clusters = (if v = 0 then 1 else 0)\<rparr>"
proof -
  let ?img = "rc_image ro o1 bs"
  note f = rc_image_fields [OF assms(1) refl, of ro]
  have l: "length ?img = 3072" using assms(1) by (rule rc_image_length)
  have o: "header_order ?img = ro" by (simp add: header_order_def f l)
  have t: "table_at ?img 1024 64 = 1536 # replicate 63 0"
    by (rule rc_image_table [OF assms(1)]) (simp_all add: rc_writes_def)
  have "orphan_count 9 (unat ro) (1536 # replicate 63 0) ?img [2560] = (if v = 0 then 1 else 0)"
    using v by (simp add: orphan_count_def)
  moreover have "take scan_cap [2560 :: nat] = [2560]" "min 1 (scan_cap + 1) = 1"
    by (simp_all add: scan_cap_def)
  ultimately show ?thesis
    using assms(2,3)
    by (simp add: report_result_def Let_def f l o CB_def CS t rc_image_l1 [OF assms(1)]
        rc_image_hosts [OF assms(1)] header_report_def del: One_nat_def)
qed

text \<open>The refcount of the data cluster is the field of bits that was written.\<close>

lemma rc_image_value:
  assumes "o1 = 5 * 2 ^ unat ro div 8" and "w = 5 * 2 ^ unat ro mod 8"
    and "w + 2 ^ unat ro \<le> 8 * length bs" and "o1 + length bs \<le> 512" and "unat ro \<le> 6"
  shows "refcount_value 9 (unat ro) (1536 # replicate 63 0) (rc_image ro o1 bs) 5 =
    Some (be_nat bs div 2 ^ (8 * length bs - w - 2 ^ unat ro) mod 2 ^ 2 ^ unat ro)"
proof -
  let ?img = "rc_image ro o1 bs" and ?n = "2 ^ unat ro :: nat"
  have l: "length ?img = 3072" using assms(4) by (rule rc_image_length)
  have "(2 :: nat) ^ 6 \<le> 2 ^ (12 - unat ro)" using assms(5) by (intro power_increasing) auto
  then have rpb: "5 < refcounts_per_block 9 (unat ro)" by (simp add: refcounts_per_block_def)
  have p: "8 * block_offset 9 1536 + refcount_bit_off 9 (unat ro) 5 = 8 * (1536 + o1) + w"
    using rpb assms(1,2) by (simp add: block_offset_def refcount_bit_off_def)
  have "bit_field ?img (8 * (1536 + o1) + w) ?n
      = be_nat (take (length bs) (drop (1536 + o1) ?img)) div 2 ^ (8 * length bs - w - ?n) mod 2 ^ ?n"
    using assms(3,4) l by (intro bit_field_bytes) auto
  also have "take (length bs) (drop (1536 + o1) ?img) = bs"
    using rc_image_write [OF assms(4), of "1536 + o1" bs ro] by (simp add: rc_writes_def)
  finally have b: "bit_field ?img (8 * (1536 + o1) + w) ?n
      = be_nat bs div 2 ^ (8 * length bs - w - ?n) mod 2 ^ ?n" .
  have "8 * (1536 + o1) + w + ?n \<le> 8 * length ?img" using assms(3,4) l by simp
  moreover have "block_offset 9 1536 \<noteq> 0" by (simp add: block_offset_def)
  ultimately show ?thesis
    using rpb b by (simp only: refcount_value_def get_at_def) (simp add: p)
qed


section \<open>The bytes of a refcount\<close>

lemma unat_ucast_mod: "unat (ucast v :: 'a::len word) = unat v mod 2 ^ LENGTH('a)" for v :: u64
  by (simp add: unsigned_ucast_eq take_bit_eq_mod)

lemma sub_byte_bits:
  fixes v :: u64
  assumes "b + s \<le> 8"
  shows "unat (ucast (push_bit s (v AND mask b)) :: u8) = unat v mod 2 ^ b * 2 ^ s"
proof -
  have "unat v mod 2 ^ b < 2 ^ b" by simp
  then have "unat v mod 2 ^ b * 2 ^ s < 2 ^ b * 2 ^ s" by simp
  also have "\<dots> \<le> (2 :: nat) ^ 8" using assms by (simp only: power_add [symmetric] power_increasing) 
  finally have lt: "unat v mod 2 ^ b * 2 ^ s < 256" by simp
  have "push_bit s (v AND mask b) = of_nat (unat v mod 2 ^ b * 2 ^ s)"
    by (simp add: push_bit_eq_mult and_mask_of_nat)
  then show ?thesis using lt by (simp only: unat_ucast_mod unat_of_nat) simp
qed

lemma rc_entry_field:
  assumes "ord \<le> 6"
  shows "\<exists>bs. rc_entry (2 ^ ord) (of_nat (5 * 2 ^ ord)) v = (Ok bs :: ('e, u8 list) outcome) \<and>
    5 * 2 ^ ord mod 8 + 2 ^ ord \<le> 8 * length bs \<and> 5 * 2 ^ ord div 8 + length bs \<le> 512 \<and>
    be_nat bs div 2 ^ (8 * length bs - 5 * 2 ^ ord mod 8 - 2 ^ ord) mod 2 ^ 2 ^ ord
      = unat v mod 2 ^ 2 ^ ord"
  using assms
proof (cases ord rule: ord_cases)
  case 1
  then show ?thesis
    using sub_byte_bits [of 1 2 v]
    by (simp add: rc_entry_def sub_chk_def shl_chk_def be_nat_def mask_eq_exp_minus_1)
next
  case 2
  then show ?thesis
    using sub_byte_bits [of 2 4 v]
    by (simp add: rc_entry_def sub_chk_def shl_chk_def be_nat_def mask_eq_exp_minus_1)
next
  case 3
  then show ?thesis
    using sub_byte_bits [of 4 0 v]
    by (simp add: rc_entry_def sub_chk_def shl_chk_def be_nat_def mask_eq_exp_minus_1)
next
  case 4
  then show ?thesis by (simp add: rc_entry_def be_nat_def unat_ucast_mod)
next
  case 5
  then show ?thesis by (simp add: rc_entry_def be_nat_to_be unat_ucast_mod del: to_be.simps)
next
  case 6
  then show ?thesis by (simp add: rc_entry_def be_nat_to_be unat_ucast_mod del: to_be.simps)
next
  case 7
  then show ?thesis by (simp add: rc_entry_def be_nat_to_be del: to_be.simps)
qed


text \<open>The arithmetic of \<open>build_order\<close> on the seven widths.\<close>

lemma rc_build_order_image:
  assumes "unat ro \<le> 6"
    and "rc_entry (2 ^ unat ro) (of_nat (5 * 2 ^ unat ro)) v = (Ok bs :: ('e, u8 list) outcome)"
  shows "rc_build_order ro v = (Ok (rc_image ro (5 * 2 ^ unat ro div 8) bs) :: ('e, u8 list) outcome)"
proof -
  define ord where "ord = unat ro"
  then have ord: "ord \<le> 6" using assms(1) by simp
  have ro: "ro = of_nat ord" by (simp add: ord_def)
  have p: "(2 :: nat) ^ ord \<le> 2 ^ 6" using ord by (intro power_increasing) auto
  have sh: "shl_chk 1 ro = (Ok (2 ^ ord) :: ('e, u64) outcome)"
    unfolding ro using ord by (intro shl_chk_of_nat) simp
  have u: "unat (of_nat (5 * 2 ^ ord) :: u64) = 5 * 2 ^ ord" using p by (simp only: unat_of_nat) simp
  have m: "mul_chk 5 (2 ^ ord) = (Ok (of_nat (5 * 2 ^ ord)) :: ('e, u64) outcome)"
    using p ord by (simp add: mul_chk_def unat_2_power)
  have "unat (of_nat (5 * 2 ^ ord) div 8 :: u64) = 5 * 2 ^ ord div 8" by (simp only: unat_div u) simp
  then have o1: "unat (1536 + of_nat (5 * 2 ^ ord) div 8 :: u64) = 1536 + 5 * 2 ^ ord div 8"
    using p by (subst unat_plus_no_overflow) simp_all
  show ?thesis
    using assms(2)
    by (simp only: rc_build_order_def rc_words sh and_then.simps Let_def ord_def [symmetric] m o1
        rc_image_put)
qed

lemma rc_build_image: "rc_build v = rc_image 4 10 (to_be 2 v)"
proof -
  have "unat (CS * 3) + unat (5 :: u64) * 2 = 1536 + 10" by (simp add: CS)
  then show ?thesis by (simp only: rc_build_def Let_def rc_words rc_image_put)
qed

lemma rc_build_facts:
  "length (rc_build v) = 3072"
  "be_word_at 4 (rc_build v) 0 = MAGIC" "be_word_at 4 (rc_build v) 4 = (3 :: u32)"
  "be_word_at 4 (rc_build v) 20 = CB" "be_word_at 4 (rc_build v) 36 = (1 :: u32)"
  "be_word_at 8 (rc_build v) 40 = CS" "be_word_at 8 (rc_build v) 48 = (1024 :: u64)"
  "be_word_at 4 (rc_build v) 56 = (1 :: u32)" "be_word_at 4 (rc_build v) 96 = (4 :: u32)"
  "table_at (rc_build v) 512 1 = [0x8000000000000800]"
  "table_at (rc_build v) 1024 64 = 1536 # replicate 63 0"
  "table_at (rc_build v) 2048 64 = 0x8000000000000A00 # replicate 63 0"
proof -
  have l: "10 + length (to_be 2 v) \<le> 512" by simp
  note f = rc_image_fields [OF l refl, of 4]
  show "length (rc_build v) = 3072" using l by (simp only: rc_build_image rc_image_length)
  show "be_word_at 4 (rc_build v) 0 = MAGIC" "be_word_at 4 (rc_build v) 4 = (3 :: u32)"
    "be_word_at 4 (rc_build v) 20 = CB" "be_word_at 4 (rc_build v) 36 = (1 :: u32)"
    "be_word_at 8 (rc_build v) 40 = CS" "be_word_at 8 (rc_build v) 48 = (1024 :: u64)"
    "be_word_at 4 (rc_build v) 56 = (1 :: u32)" "be_word_at 4 (rc_build v) 96 = (4 :: u32)"
    by (simp_all only: rc_build_image f)
  show "table_at (rc_build v) 512 1 = [0x8000000000000800]"
    using rc_image_l1 [OF l] by (simp only: rc_build_image)
  show "table_at (rc_build v) 1024 64 = 1536 # replicate 63 0"
    "table_at (rc_build v) 2048 64 = 0x8000000000000A00 # replicate 63 0"
    unfolding rc_build_image by (rule rc_image_table [OF l]; simp add: rc_writes_def)+
qed

lemma rc_build_zero:
  assumes "list_all (away_from off n) (rc_writes 4 10 (to_be 2 v))"
  shows "be_word_at n (rc_build v) off = 0"
proof -
  have "10 + length (to_be 2 v) \<le> 512" by simp
  then show ?thesis
    unfolding rc_build_image rc_image_def
    using word_untouched [OF _ assms, of "replicate 3072 0"] rc_writes_ok(1)
    by (simp add: be_word_at_zeros)
qed

lemma rc_build_header:
  "header_parse (take 104 (rc_build v)) =
    Ok \<lparr>h_cluster_bits = 9, h_disk_size = 512, h_l1_size = 1, h_l1_table_offset = 512\<rparr>"
proof -
  have l: "10 + length (to_be 2 v) \<le> 512" by simp
  have "be_word_at 8 (rc_build v) 8 = (0 :: u64)" "be_word_at 8 (rc_build v) 72 = (0 :: u64)"
    "be_word_at 4 (rc_build v) 32 = (0 :: u32)"
    by (rule rc_build_zero; simp add: rc_writes_def away_from_def)+
  moreover have "be_word_at 8 (rc_build v) 24 = CS"
    unfolding rc_build_image by (rule rc_image_word [OF l]) (simp_all add: rc_writes_def)
  ultimately show ?thesis
    by (simp add: header_parse_Ok_iff decodable_header_def be_u32_word_at be_u64_word_at be_word_at_take
        rc_build_facts MIN_HEADER_SIZE_def CB_def CS)
qed

lemma rc_build_is_order_4: "rc_build_order 4 (ucast w) = Ok (rc_build w)"
proof -
  have "(ucast (ucast w :: u64) :: u16) = w"
    by (rule bit_word_eqI) (simp add: bit_ucast_iff)
  then have "rc_entry (2 ^ unat (4 :: u32)) (of_nat (5 * 2 ^ unat (4 :: u32))) (ucast w) = (Ok (to_be 2 w) :: ('e, u8 list) outcome)"
    by (simp add: rc_entry_def)
  note order = rc_build_order_image [OF _ this]
  with rc_build_image [of w] show ?thesis by simp
qed

text \<open>The report of the image of \<open>build_order\<close>.\<close>

lemma rc_build_order_report:
  assumes "unat ro \<le> 6"
  shows "\<exists>img. rc_build_order ro v = (Ok img :: (unit, u8 list) outcome) \<and>
    refcount_report (\<lambda>_. Inr img) path = Ok \<lparr>rr_refcount_order = ro, rr_table_offset = 1024,
      rr_table_clusters = 1, rr_allocated_clusters = 1,
      rr_orphan_clusters = (if unat v mod 2 ^ 2 ^ unat ro = 0 then 1 else 0)\<rparr>"
proof -
  from rc_entry_field [OF assms, of v] obtain bs where
    e: "rc_entry (2 ^ unat ro) (of_nat (5 * 2 ^ unat ro)) v = (Ok bs :: (unit, u8 list) outcome)"
    and f: "5 * 2 ^ unat ro mod 8 + 2 ^ unat ro \<le> 8 * length bs" "5 * 2 ^ unat ro div 8 + length bs \<le> 512"
      "be_nat bs div 2 ^ (8 * length bs - 5 * 2 ^ unat ro mod 8 - 2 ^ unat ro) mod 2 ^ 2 ^ unat ro
        = unat v mod 2 ^ 2 ^ unat ro"
    by blast
  note rv = rc_image_value [OF refl refl f(1,2) assms, unfolded f(3)]
  let ?img = "rc_image ro (5 * 2 ^ unat ro div 8) bs"
  have "length ?img < isize_limit" by (simp add: rc_image_length [OF f(2)] isize_limit_def)
  from refcount_report_bytes(2) [where fs = "\<lambda>_. Inr ?img" and path = path, OF refl this]
  show ?thesis
    using rc_build_order_image [OF assms e] rc_image_report [OF f(2) assms _ rv] by blast
qed

section \<open>Properties\<close>

text \<open>
  C17. Round trip of a refcount: for each of the seven widths and every value, the report of the
  image that build_order makes counts its one data cluster, and counts it as an orphan exactly
  when the value, cut to the width, is 0.
\<close>

theorem refcount_image_roundtrip:
  assumes "unat ro \<le> 6"
  shows "\<exists>img. rc_build_order ro v = (Ok img :: (unit, u8 list) outcome) \<and>
    refcount_report (\<lambda>_. Inr img) path = Ok \<lparr>rr_refcount_order = ro, rr_table_offset = 1024,
      rr_table_clusters = 1, rr_allocated_clusters = 1,
      rr_orphan_clusters = (if unat v mod 2 ^ 2 ^ unat ro = 0 then 1 else 0)\<rparr>"
  using assms by (rule rc_build_order_report)

theorem refcount_image_roundtrip_witness:
  "\<exists>img r. rc_build_order 1 6 = (Ok img :: (unit, u8 list) outcome) \<and>
    refcount_report (\<lambda>_. Inr img) () = Ok r \<and> rr_orphan_clusters r = 0"
  using refcount_image_roundtrip [of 1 6 "()"] by auto

end
