(* ===== verification/Refcount_Tests.thy ===== *)
theory Refcount_Tests
  imports Refcount_Fixture Testkit
begin

text \<open>
  The tests of core/src/refcount.rs, each as the bool of its assertions, and the proofs that they
  pass: those of the seven widths from the round trip of \<open>build_order\<close>, those that patch the image
  of \<open>build\<close> from the specification \<^const>\<open>report_result\<close>.
\<close>

section \<open>The tests\<close>

definition eight_bit_refcount_zero_is_orphan :: bool where
  "eight_bit_refcount_zero_is_orphan =
    expect (rc_build_order 3 0 :: (unit, u8 list) outcome) (\<lambda>img. let f = tmp_file img in
     expect (refcount_report f ()) (\<lambda>r.
       rr_refcount_order r = 3 \<and> rr_allocated_clusters r = 1 \<and> rr_orphan_clusters r = 1))"

definition eight_bit_refcount_nonzero_is_referenced :: bool where
  "eight_bit_refcount_nonzero_is_referenced =
    expect (rc_build_order 3 1 :: (unit, u8 list) outcome) (\<lambda>img. let f = tmp_file img in
     expect (refcount_report f ()) (\<lambda>r. rr_orphan_clusters r = 0))"

definition thirty_two_bit_refcount_is_read :: bool where
  "thirty_two_bit_refcount_is_read =
    expect (rc_build_order 5 1 :: (unit, u8 list) outcome) (\<lambda>img. let f = tmp_file img in
     expect (refcount_report f ()) (\<lambda>r.
       rr_refcount_order r = 5 \<and> rr_allocated_clusters r = 1 \<and> rr_orphan_clusters r = 0))"

definition sixty_four_bit_refcount_is_read :: bool where
  "sixty_four_bit_refcount_is_read =
    expect (rc_build_order 6 1 :: (unit, u8 list) outcome) (\<lambda>img. let f = tmp_file img in
     expect (refcount_report f ()) (\<lambda>r.
       rr_refcount_order r = 6 \<and> rr_allocated_clusters r = 1 \<and> rr_orphan_clusters r = 0))"

definition sub_byte_refcount_widths_are_extracted :: bool where
  "sub_byte_refcount_widths_are_extracted =
    list_all (\<lambda>ord.
      expect (rc_build_order ord 0 :: (unit, u8 list) outcome) (\<lambda>img. let zero = tmp_file img in
      expect (refcount_report zero ()) (\<lambda>rz.
        rr_refcount_order rz = ord \<and> rr_allocated_clusters rz = 1 \<and> rr_orphan_clusters rz = 1 \<and>
      expect (rc_build_order ord 1 :: (unit, u8 list) outcome) (\<lambda>img. let one = tmp_file img in
      expect (refcount_report one ()) (\<lambda>ro. rr_orphan_clusters ro = 0)))))
    [0, 1, 2]"

definition empty_l1_entry_is_skipped :: bool where
  "empty_l1_entry_is_skipped =
    (let img = rc_build 1;
         l1_off = unat CS;
         img = put img l1_off (to_be 8 (0 :: u64));
         f = tmp_file img in
     expect (refcount_report f ()) (\<lambda>r. rr_allocated_clusters r = 0))"

definition referenced_cluster_is_not_an_orphan :: bool where
  "referenced_cluster_is_not_an_orphan =
    (let f = tmp_file (rc_build 1) in
     expect (refcount_report f ()) (\<lambda>r.
       rr_refcount_order r = 4 \<and> rr_allocated_clusters r = 1 \<and> rr_orphan_clusters r = 0))"

definition refcount_zero_cluster_is_flagged_as_orphan :: bool where
  "refcount_zero_cluster_is_flagged_as_orphan =
    (let f = tmp_file (rc_build 0) in
     expect (refcount_report f ()) (\<lambda>r. rr_allocated_clusters r = 1 \<and> rr_orphan_clusters r = 1))"

definition missing_refcount_block_means_orphan :: bool where
  "missing_refcount_block_means_orphan =
    (let img = rc_build 7;
         rt_off = unat (CS * 2);
         img = put img rt_off (to_be 8 (0 :: u64));
         f = tmp_file img in
     expect (refcount_report f ()) (\<lambda>r. rr_orphan_clusters r = 1))"

definition refcount_bad_magic_is_rejected :: bool where
  "refcount_bad_magic_is_rejected =
    (let img = (rc_build 1)[0 := 0]; f = tmp_file img in
     case refcount_report f () of Err BadMagic \<Rightarrow> True | _ \<Rightarrow> False)"

definition refcount_too_small_is_rejected :: bool where
  "refcount_too_small_is_rejected =
    (let f = tmp_file (replicate 8 0) in
     case refcount_report f () of Err FileTooSmall \<Rightarrow> True | _ \<Rightarrow> False)"

definition bad_version_is_rejected :: bool where
  "bad_version_is_rejected =
    (let img = put (rc_build 1) 4 (to_be 4 (7 :: u32)); f = tmp_file img in
     case refcount_report f () of Err (UnsupportedVersion v) \<Rightarrow> v = 7 | _ \<Rightarrow> False)"

definition bad_cluster_bits_is_rejected :: bool where
  "bad_cluster_bits_is_rejected =
    (let img = put (rc_build 1) 20 (to_be 4 (30 :: u32)); f = tmp_file img in
     case refcount_report f () of Err (ClusterBitsOutOfRange cb) \<Rightarrow> cb = 30 | _ \<Rightarrow> False)"

definition oversized_refcount_order_is_reported_without_scanning :: bool where
  "oversized_refcount_order_is_reported_without_scanning =
    (let img = put (rc_build 1) 96 (to_be 4 (9 :: u32)); f = tmp_file img in
     expect (refcount_report f ()) (\<lambda>r.
       rr_refcount_order r = 9 \<and> rr_allocated_clusters r = 0 \<and> rr_orphan_clusters r = 0))"

definition compressed_and_zero_clusters_are_skipped :: bool where
  "compressed_and_zero_clusters_are_skipped =
    (let img = rc_build 1;
         l2_off = unat (CS * 4);
         comp = push_bit 62 1 OR 0x1234 :: u64;
         img = put img l2_off (to_be 8 comp);
         f = tmp_file img in
     expect (refcount_report f ()) (\<lambda>r. rr_allocated_clusters r = 0))"

definition zero_flag_cluster_is_skipped :: bool where
  "zero_flag_cluster_is_skipped =
    (let img = rc_build 1;
         l2_off = unat (CS * 4);
         img = put img l2_off (to_be 8 (1 :: u64));
         f = tmp_file img in
     expect (refcount_report f ()) (\<lambda>r. rr_allocated_clusters r = 0))"

definition v2_defaults_to_order_four :: bool where
  "v2_defaults_to_order_four =
    (let img = put (rc_build 1) 4 (to_be 4 (2 :: u32));
         img = put img 96 (to_be 4 (0 :: u32));
         f = tmp_file img in
     expect (refcount_report f ()) (\<lambda>r. rr_refcount_order r = 4))"

definition refcount_open_nonexistent_is_io_error :: "rstring file_system \<Rightarrow> bool" where
  "refcount_open_nonexistent_is_io_error fs =
    is_err (refcount_report fs (str ''/tmp/no_such_qcow2_rc.qcow2''))"

definition refcount_table_read_failure_surfaces_io_error_not_empty :: bool where
  "refcount_table_read_failure_surfaces_io_error_not_empty =
    (let img = rc_build 1;
         past_eof = of_nat (length img) + CS * 64;
         img = put img 48 (to_be 8 past_eof);
         f = tmp_file img in
     case refcount_report f () of Err (Io _) \<Rightarrow> True | _ \<Rightarrow> False)"

definition empty_refcount_table_still_reports_ok :: bool where
  "empty_refcount_table_still_reports_ok =
    (let img = rc_build 1;
         img = put img 48 (to_be 8 (0 :: u64));
         img = put img 56 (to_be 4 (0 :: u32));
         f = tmp_file img in
     expect (refcount_report f ()) (\<lambda>r. rr_table_offset r = 0))"

section \<open>The widths\<close>

lemma width_tests_pass:
  "eight_bit_refcount_zero_is_orphan" "eight_bit_refcount_nonzero_is_referenced"
  "thirty_two_bit_refcount_is_read" "sixty_four_bit_refcount_is_read"
  "sub_byte_refcount_widths_are_extracted"
  "referenced_cluster_is_not_an_orphan" "refcount_zero_cluster_is_flagged_as_orphan"
proof -
  have o: "\<exists>img. rc_build_order ro v = (Ok img :: (unit, u8 list) outcome) \<and>
      (\<exists>r. refcount_report (tmp_file img) () = Ok r \<and> rr_refcount_order r = ro \<and>
        rr_allocated_clusters r = 1 \<and> rr_orphan_clusters r = (if unat v mod 2 ^ 2 ^ unat ro = 0 then 1 else 0))"
    if "unat ro \<le> 6" for ro v
    using rc_build_order_report [OF that, of v "()"] by (force simp: tmp_file_def)
  show "eight_bit_refcount_zero_is_orphan"
    using o [of 3 0] by (auto simp: eight_bit_refcount_zero_is_orphan_def)
  show "eight_bit_refcount_nonzero_is_referenced"
    using o [of 3 1] by (auto simp: eight_bit_refcount_nonzero_is_referenced_def)
  show "thirty_two_bit_refcount_is_read"
    using o [of 5 1] by (auto simp: thirty_two_bit_refcount_is_read_def)
  show "sixty_four_bit_refcount_is_read"
    using o [of 6 1] by (auto simp: sixty_four_bit_refcount_is_read_def)
  show "sub_byte_refcount_widths_are_extracted"
    using o [of 0 0] o [of 0 1] o [of 1 0] o [of 1 1] o [of 2 0] o [of 2 1]
    by (auto simp: sub_byte_refcount_widths_are_extracted_def Let_def)
  have b: "rc_build_order 4 (ucast w) = (Ok (rc_build w) :: (unit, u8 list) outcome)" for w :: u16
    by (rule rc_build_is_order_4)
  show "referenced_cluster_is_not_an_orphan"
    using o [of 4 "ucast (1 :: u16)"] unfolding b
    by (auto simp: referenced_cluster_is_not_an_orphan_def)
  show "refcount_zero_cluster_is_flagged_as_orphan"
    using o [of 4 "ucast (0 :: u16)"] unfolding b
    by (auto simp: refcount_zero_cluster_is_flagged_as_orphan_def)
qed

section \<open>Patched images\<close>

lemma tmp_report:
  assumes "length img = 3072"
  shows "report_result img (refcount_report (tmp_file img) ())"
  using refcount_report_bytes(2) [of "tmp_file img" "()" img] assms by (simp add: tmp_file_def isize_limit_def)

lemma host_fields:
  "host_field 0x8000000000000800 = 2048" "host_field 0 = 0" "l2_host 0x8000000000000A00 = Some 2560"
  "l2_host 1 = None" "l2_host (push_bit 62 1 OR 0x1234) = None"
  by (simp_all add: host_field_def l2_host_def bit_or_iff bit_push_bit_iff)

text \<open>The report of an image of this geometry, whose tables may be patched.\<close>

lemma rc_patched_report:
  assumes "length img = 3072" and "be_word_at 4 img 0 = MAGIC" and "be_word_at 4 img 4 = (3 :: u32)"
    and "be_word_at 4 img 20 = CB" and "be_word_at 4 img 36 = (1 :: u32)" and "be_word_at 8 img 40 = CS"
    and "be_word_at 8 img 48 = (1024 :: u64)" and "be_word_at 4 img 56 = (1 :: u32)"
    and "be_word_at 4 img 96 = (4 :: u32)"
  shows "refcount_report (tmp_file img) () = Ok (header_report img 4
    (of_nat (min (length (reachable_hosts 9 img (table_at img 512 1))) (scan_cap + 1)))
    (of_nat (orphan_count 9 4 (table_at img 1024 64) img
      (take scan_cap (reachable_hosts 9 img (table_at img 512 1))))))"
proof -
  have "header_order img = 4" using assms by (simp add: header_order_def)
  then show ?thesis
    using tmp_report [OF assms(1)] assms by (simp add: report_result_def Let_def CB_def CS del: One_nat_def)
qed

lemmas rc_put = be_word_at_put_other be_word_at_put_same table_at_put_other rc_build_facts

lemma patched_table_tests_pass:
  "empty_l1_entry_is_skipped" "missing_refcount_block_means_orphan"
  "compressed_and_zero_clusters_are_skipped" "zero_flag_cluster_is_skipped"
proof -
  let ?l1 = "put (rc_build 1) 512 (to_be 8 (0 :: u64))"
  have "table_at ?l1 512 1 = [0]"
    using table_at_put_first [of "rc_build 1" 512 0] rc_build_facts(10) [of 1] by simp
  then have "reachable_hosts 9 ?l1 (table_at ?l1 512 1) = []"
    by (simp add: reachable_hosts_def host_fields table_at_def List.map_filter_simps del: One_nat_def)
  then show "empty_l1_entry_is_skipped"
    using rc_patched_report [of ?l1]
    by (simp add: empty_l1_entry_is_skipped_def rc_words rc_put header_report_def del: One_nat_def)
  have l2: "reachable_hosts 9 img (table_at img 512 1) = []"
    if img: "img = put (rc_build 1) 2048 (to_be 8 w)" and w: "l2_host w = None" for img w
  proof -
    have "table_at img 2048 64 = w # replicate 63 0"
      using table_at_put_first [of "rc_build 1" 2048 63] rc_build_facts(12) [of 1] by (simp add: img)
    moreover have "table_at img 512 1 = [0x8000000000000800]" by (simp add: img rc_put del: One_nat_def)
    ultimately show ?thesis
      using w by (simp add: reachable_hosts_def host_fields List.map_filter_simps del: One_nat_def)
  qed
  show "compressed_and_zero_clusters_are_skipped"
    using rc_patched_report [of "put (rc_build 1) 2048 (to_be 8 (push_bit 62 1 OR 0x1234 :: u64))"]
      l2 [OF refl host_fields(5)]
    by (simp add: compressed_and_zero_clusters_are_skipped_def rc_words rc_put header_report_def
        del: One_nat_def)
  show "zero_flag_cluster_is_skipped"
    using rc_patched_report [of "put (rc_build 1) 2048 (to_be 8 (1 :: u64))"] l2 [OF refl host_fields(4)]
    by (simp add: zero_flag_cluster_is_skipped_def rc_words rc_put header_report_def del: One_nat_def)
  let ?rt = "put (rc_build 7) 1024 (to_be 8 (0 :: u64))"
  have "table_at ?rt 1024 64 = replicate 64 0"
    using table_at_put_first [of "rc_build 7" 1024 63] rc_build_facts(11) [of 7] 
    by (simp add: replicate_Suc [symmetric] del: replicate_Suc)
  moreover have "reachable_hosts 9 ?rt (table_at ?rt 512 1) = [2560]"
    by (simp add: reachable_hosts_def rc_put host_fields List.map_filter_simps del: One_nat_def)
  moreover have "take scan_cap [2560 :: nat] = [2560]" by (simp add: scan_cap_def)
  moreover have "refcount_value 9 4 (replicate 64 0) ?rt 5 = Some 0"
    by (simp add: refcount_value_def get_at_def refcounts_per_block_def block_offset_def)
  ultimately show "missing_refcount_block_means_orphan"
    using rc_patched_report [of ?rt]
    by (simp add: missing_refcount_block_means_orphan_def rc_words rc_put header_report_def orphan_count_def
        del: One_nat_def)
qed

lemma refcount_header_tests_pass:
  "refcount_bad_magic_is_rejected" "refcount_too_small_is_rejected" "bad_version_is_rejected"
  "bad_cluster_bits_is_rejected" "oversized_refcount_order_is_reported_without_scanning"
  "v2_defaults_to_order_four"
proof -
  note d = report_result_def Let_def rc_put CB_def header_order_def
  have "be_word_at 4 ((rc_build 1)[0 := 0]) 0 \<noteq> MAGIC"
    by (rule first_byte_cleared) (simp add: rc_build_facts)
  then show "refcount_bad_magic_is_rejected"
    using tmp_report [of "(rc_build 1)[0 := 0]"]
    by (simp add: refcount_bad_magic_is_rejected_def d)
  show "refcount_too_small_is_rejected"
    using refcount_report_bytes(2) [of "tmp_file (replicate 8 0)" "()" "replicate 8 0"]
    by (simp add: refcount_too_small_is_rejected_def tmp_file_def isize_limit_def report_result_def Let_def)
  show "bad_version_is_rejected"
    using tmp_report [of "put (rc_build 1) 4 (to_be 4 (7 :: u32))"] by (simp add: bad_version_is_rejected_def d)
  show "bad_cluster_bits_is_rejected"
    using tmp_report [of "put (rc_build 1) 20 (to_be 4 (30 :: u32))"] by (simp add: bad_cluster_bits_is_rejected_def d)
  show "oversized_refcount_order_is_reported_without_scanning"
    using tmp_report [of "put (rc_build 1) 96 (to_be 4 (9 :: u32))"]
    by (simp add: oversized_refcount_order_is_reported_without_scanning_def d header_report_def)
  show "v2_defaults_to_order_four"
    using tmp_report [of "put (put (rc_build 1) 4 (to_be 4 (2 :: u32))) 96 (to_be 4 (0 :: u32))"]
    by (simp add: v2_defaults_to_order_four_def d header_report_def)
qed

lemma refcount_table_tests_pass:
  "refcount_table_read_failure_surfaces_io_error_not_empty" "empty_refcount_table_still_reports_ok"
proof -
  note d = report_result_def Let_def rc_put CB_def header_order_def
  have past: "of_nat (length (rc_build 1)) + CS * 64 = (35840 :: u64)" by (simp add: rc_build_facts CS)
  show "refcount_table_read_failure_surfaces_io_error_not_empty"
    using tmp_report [of "put (rc_build 1) 48 (to_be 8 (35840 :: u64))"]
    unfolding refcount_table_read_failure_surfaces_io_error_not_empty_def Let_def past
    by (simp add: d)
  show "empty_refcount_table_still_reports_ok"
    using tmp_report [of "put (put (rc_build 1) 48 (to_be 8 (0 :: u64))) 56 (to_be 4 (0 :: u32))"]
    by (simp add: empty_refcount_table_still_reports_ok_def d header_report_def)
qed

lemma refcount_nonexistent_test:
  "fs (str ''/tmp/no_such_qcow2_rc.qcow2'') = Inl e \<Longrightarrow> refcount_open_nonexistent_is_io_error fs"
  by (simp add: refcount_open_nonexistent_is_io_error_def refcount_report_def file_open_def)

text \<open>The suite.\<close>

definition refcount_suite ::
  "rstring file_system \<Rightarrow> bool" where
  "refcount_suite fs \<longleftrightarrow>
     eight_bit_refcount_zero_is_orphan \<and>
     eight_bit_refcount_nonzero_is_referenced \<and>
     thirty_two_bit_refcount_is_read \<and>
     sixty_four_bit_refcount_is_read \<and>
     sub_byte_refcount_widths_are_extracted \<and>
     empty_l1_entry_is_skipped \<and>
     referenced_cluster_is_not_an_orphan \<and>
     refcount_zero_cluster_is_flagged_as_orphan \<and>
     missing_refcount_block_means_orphan \<and>
     refcount_bad_magic_is_rejected \<and>
     refcount_too_small_is_rejected \<and>
     bad_version_is_rejected \<and>
     bad_cluster_bits_is_rejected \<and>
     oversized_refcount_order_is_reported_without_scanning \<and>
     compressed_and_zero_clusters_are_skipped \<and>
     zero_flag_cluster_is_skipped \<and>
     v2_defaults_to_order_four \<and>
     refcount_open_nonexistent_is_io_error fs \<and>
     refcount_table_read_failure_surfaces_io_error_not_empty \<and>
     empty_refcount_table_still_reports_ok"

lemma refcount_suite: "fs (str ''/tmp/no_such_qcow2_rc.qcow2'') = Inl e \<Longrightarrow> refcount_suite fs"
  by (simp add: refcount_suite_def width_tests_pass patched_table_tests_pass refcount_header_tests_pass
      refcount_table_tests_pass refcount_nonexistent_test)

end
