(* ===== verification/Forensic_Tests.thy ===== *)
theory Forensic_Tests
  imports Forensic Testkit
begin

text \<open>
  The tests of forensic/src/lib.rs, each as the bool of its assertions, and the proofs that they
  pass.  What they use of forensicnomicon beside \<^const>\<open>mk_evidence\<close> and the severities is the
  parameter \<open>finding_api\<close>: the default method \<open>to_finding\<close> of the trait \<open>Observation\<close>, and the
  fields of a finding and of an evidence record.
\<close>

section \<open>Strings and findings\<close>

text \<open>\<open>str::contains\<close> and \<open>str::starts_with\<close>\<close>

definition str_starts_with :: "rstring \<Rightarrow> rstring \<Rightarrow> bool" where
  "str_starts_with s p \<longleftrightarrow> take (length p) s = p"

fun str_contains :: "rstring \<Rightarrow> rstring \<Rightarrow> bool" where
  "str_contains [] p = (p = [])"
| "str_contains (b # s) p = (str_starts_with (b # s) p \<or> str_contains s p)"

record ('s, 'e, 'src, 'f) finding_api =
  sev_info :: 's
  mk_source :: "rstring \<Rightarrow> rstring \<Rightarrow> rstring option \<Rightarrow> 'src"
  to_finding :: "qcow2_anomaly \<Rightarrow> 'src \<Rightarrow> 'f"
  f_code :: "'f \<Rightarrow> rstring"
  f_severity :: "'f \<Rightarrow> 's option"
  f_note :: "'f \<Rightarrow> rstring"
  f_evidence :: "'f \<Rightarrow> 'e list"
  ev_field :: "'e \<Rightarrow> rstring"
  ev_value :: "'e \<Rightarrow> rstring"

text \<open>
  What the tests rely on: an evidence record has the field and the value it was made of, and a
  finding carries what the observation reports.
\<close>

definition finding_laws :: "('s, 'l, 'e) report_api \<Rightarrow> ('s, 'e, 'src, 'f) finding_api \<Rightarrow> bool" where
  "finding_laws api fapi \<longleftrightarrow>
     (\<forall>f v l. ev_field fapi (mk_evidence api f v l) = f \<and> ev_value fapi (mk_evidence api f v l) = v) \<and>
     (\<forall>a src. f_code fapi (to_finding fapi a src) = code a \<and>
        f_severity fapi (to_finding fapi a src) = observation_severity api a \<and>
        f_note fapi (to_finding fapi a src) = anomaly_note a \<and>
        f_evidence fapi (to_finding fapi a src) = evidence api a)"

section \<open>The tests\<close>

definition test_info :: qcow2_info where
  "test_info = \<lparr>i_version = 3, i_cluster_bits = 16, i_virtual_disk_size = push_bit 20 1,
     i_l1_size = 1, i_has_backing_file = False, i_encryption_method = 0, i_snapshot_count = 0,
     i_incompatible_features = 0, i_backing_file = None, i_backing_format = None\<rparr>"

definition all_anomalies :: "qcow2_anomaly list" where
  "all_anomalies = audit (test_info\<lparr>i_has_backing_file := True, i_encryption_method := 1,
     i_snapshot_count := 4,
     i_incompatible_features := FEAT_DIRTY OR FEAT_CORRUPT OR FEAT_EXTERNAL_DATA\<rparr>)"

text \<open>The loop over the evidence that several tests have.\<close>

definition joined :: "('s, 'e, 'src, 'f) finding_api \<Rightarrow> 'e list \<Rightarrow> rstring" where
  "joined fapi es = concat (map (\<lambda>e. ev_field fapi e @ str ''='' @ ev_value fapi e @ str '';'') es)"

text \<open>\<open>out.iter().find(|a| a.code() == c).expect(...)\<close>\<close>

definition expect_code :: "qcow2_anomaly list \<Rightarrow> rstring \<Rightarrow> (qcow2_anomaly \<Rightarrow> bool) \<Rightarrow> bool" where
  "expect_code out c k = (case find (\<lambda>a. code a = c) out of None \<Rightarrow> False | Some a \<Rightarrow> k a)"

definition test_source :: "('s, 'e, 'src, 'f) finding_api \<Rightarrow> 'src" where
  "test_source fapi = mk_source fapi (str ''qcow2-forensic'') (str ''image'') None"

definition clean_image_has_no_anomalies :: bool where
  "clean_image_has_no_anomalies = (audit test_info = [])"

definition backing_file_finding_names_the_referenced_image ::
  "('s, 'l, 'e) report_api \<Rightarrow> ('s, 'e, 'src, 'f) finding_api \<Rightarrow> bool" where
  "backing_file_finding_names_the_referenced_image api fapi =
    (let i = test_info\<lparr>i_has_backing_file := True, i_backing_file := Some (str ''base.qcow2''),
               i_backing_format := Some (str ''qcow2'')\<rparr>;
         out = audit i in
     expect_code out (str ''QCOW2-BACKING-FILE'') (\<lambda>bf.
       str_contains (anomaly_note bf) (str ''base.qcow2'') \<and>
       (let j = joined fapi (evidence api bf) in
        str_contains j (str ''base.qcow2'') \<and> str_contains j (str ''qcow2''))))"

definition backing_file_without_name_still_emits_a_generic_finding :: bool where
  "backing_file_without_name_still_emits_a_generic_finding =
    (let i = test_info\<lparr>i_has_backing_file := True\<rparr>; out = audit i in
     list_ex (\<lambda>a. code a = str ''QCOW2-BACKING-FILE'') out)"

definition backing_file_name_without_format_is_noted :: bool where
  "backing_file_name_without_format_is_noted =
    (let i = test_info\<lparr>i_has_backing_file := True, i_backing_file := Some (str ''base.qcow2''),
               i_backing_format := None\<rparr>;
         out = audit i in
     expect_code out (str ''QCOW2-BACKING-FILE'') (\<lambda>bf.
       str_contains (anomaly_note bf) (str ''base.qcow2'') \<and>
       \<not> str_contains (anomaly_note bf) (str ''format '')))"

definition every_anomaly_kind_is_emitted_and_round_trips_to_a_finding ::
  "('s, 'l, 'e) report_api \<Rightarrow> ('s, 'e, 'src, 'f) finding_api \<Rightarrow> bool" where
  "every_anomaly_kind_is_emitted_and_round_trips_to_a_finding api fapi =
    (let anomalies = all_anomalies; codes = map code anomalies; src = test_source fapi in
     list_all (\<lambda>expected. expected \<in> set codes)
       [str ''QCOW2-BACKING-FILE'', str ''QCOW2-ENCRYPTED'', str ''QCOW2-INTERNAL-SNAPSHOTS'',
        str ''QCOW2-DIRTY'', str ''QCOW2-CORRUPT'', str ''QCOW2-EXTERNAL-DATA''] \<and>
     list_all (\<lambda>a. let f = to_finding fapi a src in
       str_starts_with (f_code fapi f) (str ''QCOW2-'') \<and> f_severity fapi f \<noteq> None \<and>
       f_note fapi f \<noteq> [] \<and> f_evidence fapi f \<noteq> []) anomalies)"

definition test_report :: "u64 \<Rightarrow> u64 \<Rightarrow> refcount_report" where
  "test_report allocated orphans = \<lparr>rr_refcount_order = 4, rr_table_offset = 65536,
     rr_table_clusters = 1, rr_allocated_clusters = allocated, rr_orphan_clusters = orphans\<rparr>"

definition no_orphans_yields_no_finding :: bool where
  "no_orphans_yields_no_finding = (audit_orphans (test_report 100 0) = None)"

definition qcow1_version_is_flagged ::
  "('s, 'l, 'e) report_api \<Rightarrow> (rstring \<Rightarrow> rstring) \<Rightarrow> bool" where
  "qcow1_version_is_flagged api to_lowercase =
    (let i = test_info\<lparr>i_version := 1\<rparr>; out = audit i in
     expect_code out (str ''QCOW2-QCOW1'') (\<lambda>a.
       severity api a = sev_low api \<and>
       (str_contains (to_lowercase (anomaly_note a)) (str ''version 1'') \<or>
        str_contains (anomaly_note a) (str ''QCOW1'')) \<and>
       evidence api a \<noteq> []))"

definition qcow2_and_qcow3_are_not_flagged_as_v1 :: bool where
  "qcow2_and_qcow3_are_not_flagged_as_v1 =
    list_all (\<lambda>v. list_all (\<lambda>a. code a \<noteq> str ''QCOW2-QCOW1'') (audit (test_info\<lparr>i_version := v\<rparr>))) [2, 3]"

definition orphans_yield_a_medium_finding_with_the_count ::
  "('s, 'l, 'e) report_api \<Rightarrow> ('s, 'e, 'src, 'f) finding_api \<Rightarrow> bool" where
  "orphans_yield_a_medium_finding_with_the_count api fapi =
    (case audit_orphans (test_report 100 7) of None \<Rightarrow> False | Some a \<Rightarrow>
       code a = str ''QCOW2-ORPHAN-CLUSTERS'' \<and> severity api a = sev_medium api \<and>
       str_contains (anomaly_note a) (str ''7'') \<and>
       str_contains (joined fapi (evidence api a)) (str ''7''))"

definition orphan_anomaly_round_trips_to_a_finding ::
  "('s, 'l, 'e) report_api \<Rightarrow> ('s, 'e, 'src, 'f) finding_api \<Rightarrow> bool" where
  "orphan_anomaly_round_trips_to_a_finding api fapi =
    (let src = test_source fapi in
     case audit_orphans (test_report 10 3) of None \<Rightarrow> False | Some a \<Rightarrow>
       let f = to_finding fapi a src in
       f_code fapi f = str ''QCOW2-ORPHAN-CLUSTERS'' \<and>
       f_severity fapi f = Some (sev_medium api) \<and> f_evidence fapi f \<noteq> [])"

definition severities_are_graded :: "('s, 'l, 'e) report_api \<Rightarrow> bool" where
  "severities_are_graded api =
    (let i = test_info\<lparr>i_incompatible_features := FEAT_CORRUPT OR FEAT_DIRTY\<rparr>; a = audit i in
     expect_code a (str ''QCOW2-CORRUPT'') (\<lambda>corrupt.
     expect_code a (str ''QCOW2-DIRTY'') (\<lambda>dirty.
       severity api corrupt = sev_high api \<and> severity api dirty = sev_low api)))"

definition audit_path_inspects_a_real_header_then_audits :: bool where
  "audit_path_inspects_a_real_header_then_audits =
    (let h = replicate 72 0;
         h = put h 0 (to_be 4 (0x514649fb :: u32));
         h = put h 4 (to_be 4 (2 :: u32));
         h = put h 8 (to_be 8 (512 :: u64));
         h = put h 20 (to_be 4 (16 :: u32));
         f = tmp_file h in
     expect (audit_path f ()) (\<lambda>anomalies.
       list_ex (\<lambda>a. case a of BackingFile _ _ \<Rightarrow> True | _ \<Rightarrow> False) anomalies))"

definition audit_path_propagates_errors_on_non_qcow2 :: bool where
  "audit_path_propagates_errors_on_non_qcow2 =
    (let f = tmp_file (str ''definitely not a qcow2 image header'') in is_err (audit_path f ()))"

definition test_snap :: "rstring \<Rightarrow> u32 \<Rightarrow> qcow2_snapshot" where
  "test_snap name secs = \<lparr>snap_id = str ''1'', snap_name = name, snap_date_unix_secs = secs,
     snap_date_nsecs = 0, snap_vm_state_size = 0\<rparr>"

definition audit_snapshots_emits_one_finding_per_snapshot :: bool where
  "audit_snapshots_emits_one_finding_per_snapshot =
    (let snaps = [test_snap (str ''alpha'') 1700000000, test_snap (str ''beta'') 1700000050];
         out = audit_snapshots snaps in
     length out = 2 \<and> list_all (\<lambda>a. code a = str ''QCOW2-SNAPSHOT'') out)"

definition audit_snapshots_empty_yields_nothing :: bool where
  "audit_snapshots_empty_yields_nothing = (audit_snapshots [] = [])"

definition snapshot_finding_carries_name_and_timestamp_in_evidence ::
  "('s, 'l, 'e) report_api \<Rightarrow> ('s, 'e, 'src, 'f) finding_api \<Rightarrow> bool" where
  "snapshot_finding_carries_name_and_timestamp_in_evidence api fapi =
    (let out = audit_snapshots [test_snap (str ''alpha'') 1700000000]; a = out ! 0 in
     code a = str ''QCOW2-SNAPSHOT'' \<and>
     (severity api a = sev_low api \<or> severity api a = sev_info fapi) \<and>
     str_contains (anomaly_note a) (str ''alpha'') \<and>
     (let j = joined fapi (evidence api a) in
      str_contains j (str ''alpha'') \<and> str_contains j (str ''1700000000'')))"

definition snapshot_anomaly_round_trips_to_a_finding ::
  "('s, 'l, 'e) report_api \<Rightarrow> ('s, 'e, 'src, 'f) finding_api \<Rightarrow> bool" where
  "snapshot_anomaly_round_trips_to_a_finding api fapi =
    (let src = test_source fapi;
         out = audit_snapshots [test_snap (str ''alpha'') 1700000000];
         f = to_finding fapi (out ! 0) src in
     f_code fapi f = str ''QCOW2-SNAPSHOT'' \<and> f_severity fapi f \<noteq> None \<and>
     f_note fapi f \<noteq> [] \<and> f_evidence fapi f \<noteq> [])"

section \<open>They pass\<close>

lemma str_contains_here: "str_contains (p @ s) p"
proof -
  have "take (length p) (p @ s) = p" by simp
  then show ?thesis by (cases "p @ s") (simp_all add: str_starts_with_def)
qed

lemma str_contains_later: "str_contains s p \<Longrightarrow> str_contains (r @ s) p"
  by (induction r) simp_all

lemmas str_contains_intros = str_contains_here str_contains_later

lemma finding_lawsD:
  assumes "finding_laws api fapi"
  shows "ev_field fapi (mk_evidence api f v l) = f" "ev_value fapi (mk_evidence api f v l) = v"
    "f_code fapi (to_finding fapi a src) = code a"
    "f_severity fapi (to_finding fapi a src) = Some (severity api a)"
    "f_note fapi (to_finding fapi a src) = anomaly_note a"
    "f_evidence fapi (to_finding fapi a src) = evidence api a"
  using assms by (simp_all add: finding_laws_def observation_severity_def)

lemma test_audits:
  "audit test_info = []"
  "audit (test_info\<lparr>i_version := 1\<rparr>) = [LegacyQcow1]"
  "audit (test_info\<lparr>i_version := 2\<rparr>) = []"
  "audit (test_info\<lparr>i_version := 3\<rparr>) = []"
  "audit (test_info\<lparr>i_has_backing_file := True\<rparr>) = [BackingFile None None]"
  "audit (test_info\<lparr>i_has_backing_file := True, i_backing_file := n, i_backing_format := f\<rparr>) = [BackingFile n f]"
  "audit (test_info\<lparr>i_incompatible_features := FEAT_CORRUPT OR FEAT_DIRTY\<rparr>) = [Dirty, Corrupt]"
  "all_anomalies = [BackingFile None None, Encrypted 1, InternalSnapshots 4, Dirty, Corrupt, ExternalDataFile]"
  by (simp_all add: audit_def test_info_def all_anomalies_def FEAT_DIRTY_def FEAT_CORRUPT_def FEAT_EXTERNAL_DATA_def)

lemma audit_tests_pass:
  "clean_image_has_no_anomalies" "backing_file_without_name_still_emits_a_generic_finding"
  "no_orphans_yields_no_finding" "qcow2_and_qcow3_are_not_flagged_as_v1" "severities_are_graded api"
  "audit_snapshots_emits_one_finding_per_snapshot" "audit_snapshots_empty_yields_nothing"
  "qcow1_version_is_flagged api to_lowercase"
proof -
  show "clean_image_has_no_anomalies" "backing_file_without_name_still_emits_a_generic_finding"
    "no_orphans_yields_no_finding" "qcow2_and_qcow3_are_not_flagged_as_v1" "severities_are_graded api"
    "audit_snapshots_emits_one_finding_per_snapshot" "audit_snapshots_empty_yields_nothing"
    by (simp_all add: clean_image_has_no_anomalies_def
        backing_file_without_name_still_emits_a_generic_finding_def no_orphans_yields_no_finding_def
        qcow2_and_qcow3_are_not_flagged_as_v1_def severities_are_graded_def expect_code_def
        audit_snapshots_emits_one_finding_per_snapshot_def audit_snapshots_empty_yields_nothing_def
        test_audits audit_orphans_def test_report_def audit_snapshots_def)
  have "str ''image uses the legacy QCOW1 (version 1) format ''
      = str ''image uses the legacy '' @ str ''QCOW1'' @ str '' (version 1) format ''"
    by (simp add: str_def)
  then have "str_contains (anomaly_note LegacyQcow1) (str ''QCOW1'')"
    by (simp add: str_contains_intros)
  then show "qcow1_version_is_flagged api to_lowercase"
    by (simp add: qcow1_version_is_flagged_def test_audits expect_code_def)
qed

lemma dec_values: "dec 7 = str ''7''" "dec 1700000000 = str ''1700000000''"
  by (simp_all add: dec.simps str_def)

lemma finding_tests_pass:
  assumes laws: "finding_laws api fapi"
  shows "every_anomaly_kind_is_emitted_and_round_trips_to_a_finding api fapi"
    and "orphan_anomaly_round_trips_to_a_finding api fapi"
    and "snapshot_anomaly_round_trips_to_a_finding api fapi"
proof -
  note l = finding_lawsD [OF laws]
  have c: "str_starts_with (code a) (str ''QCOW2-'')" for a
    by (cases a) (simp_all add: str_starts_with_def str_def)
  have n: "anomaly_note a \<noteq> []" "evidence api a \<noteq> []" if "a \<in> set all_anomalies" for a
    using that by (auto simp: test_audits str_def)
  show "every_anomaly_kind_is_emitted_and_round_trips_to_a_finding api fapi"
    using n by (simp add: every_anomaly_kind_is_emitted_and_round_trips_to_a_finding_def list_all_iff
        l c Let_def) (simp add: test_audits)
  show "orphan_anomaly_round_trips_to_a_finding api fapi" "snapshot_anomaly_round_trips_to_a_finding api fapi"
    by (simp_all add: orphan_anomaly_round_trips_to_a_finding_def snapshot_anomaly_round_trips_to_a_finding_def
        audit_orphans_def test_report_def audit_snapshots_def Let_def l)
       (simp add: str_def)
qed

lemma text_tests_pass:
  assumes laws: "finding_laws api fapi"
  shows "backing_file_finding_names_the_referenced_image api fapi"
    and "orphans_yield_a_medium_finding_with_the_count api fapi"
    and "snapshot_finding_carries_name_and_timestamp_in_evidence api fapi"
    and "backing_file_name_without_format_is_noted"
proof -
  note l = finding_lawsD [OF laws]
  have "str_contains (str ''backing_file'' @ str ''='' @ str ''base.qcow2'' @ r) (str ''qcow2'')" for r
  proof -
    have "str ''base.qcow2'' = str ''base.'' @ str ''qcow2''" by (simp add: str_def)
    then show ?thesis by (simp add: str_contains_intros)
  qed
  then show "backing_file_finding_names_the_referenced_image api fapi"
    by (simp add: backing_file_finding_names_the_referenced_image_def test_audits expect_code_def
        joined_def header_evidence_def l str_contains_intros)
  show "orphans_yield_a_medium_finding_with_the_count api fapi"
    by (simp add: orphans_yield_a_medium_finding_with_the_count_def audit_orphans_def test_report_def
        joined_def l dec_values str_contains_intros Let_def)
  show "snapshot_finding_carries_name_and_timestamp_in_evidence api fapi"
    by (simp add: snapshot_finding_carries_name_and_timestamp_in_evidence_def audit_snapshots_def
        test_snap_def joined_def l dec_values str_contains_intros Let_def)
  have "\<not> str_contains (anomaly_note (BackingFile (Some (str ''base.qcow2'')) None)) (str ''format '')"
    by (simp add: str_def em_dash_def str_starts_with_def)
  then show "backing_file_name_without_format_is_noted"
    by (simp add: backing_file_name_without_format_is_noted_def test_audits expect_code_def
        str_contains_intros)
qed

lemma audit_path_tests_pass:
  "audit_path_inspects_a_real_header_then_audits" "audit_path_propagates_errors_on_non_qcow2"
proof -
  let ?s = "str ''definitely not a qcow2 image header''"
  have "inspect (tmp_file ?s) () = info_parse (take 8192 ?s)"
    by (rule inspect_bytes) (simp_all add: tmp_file_def isize_limit_def str_def)
  also have "\<dots> = Err FileTooSmall" by (simp add: info_parse_def MIN_HEADER_SIZE_def str_def)
  finally show "audit_path_propagates_errors_on_non_qcow2"
    by (simp add: audit_path_propagates_errors_on_non_qcow2_def audit_path_def)
  define h where "h = put (put (put (put (replicate 72 0) 0 (to_be 4 (0x514649fb :: u32))) 4 (to_be 4 (2 :: u32)))
    8 (to_be 8 (512 :: u64))) 20 (to_be 4 (16 :: u32))"
  have l: "length h = 72" by (simp add: h_def)
  note w = be_word_at_put_same be_word_at_put_other be_word_at_zeros be_u32_word_at be_u64_word_at
  have t: "tmp_file h () = Inr h" "length h < isize_limit" by (simp_all add: tmp_file_def l isize_limit_def)
  have f: "be_word_at 4 h 0 = MAGIC" "be_word_at 4 h 4 = (2 :: u32)" "be_word_at 8 h 8 = (512 :: u64)"
    "be_word_at 4 h 20 = (16 :: u32)" "be_word_at 8 h 64 = (0 :: u64)" "be_word_at 4 h 56 = (0 :: u32)"
    by (simp_all add: h_def w MAGIC_def)
  have "inspect (tmp_file h) () = info_parse h" using inspect_bytes [where fs = "tmp_file h" and path = "()", OF t] by (simp add: l)
  moreover obtain i where "info_parse h = Ok i" "i_has_backing_file i"
  proof -
    obtain x where "backing_format_name h 2 = Ok x"
      using backing_format_name_no_panic [of h 2] backing_format_name_not_Err [of h 2] t(2)
      by (cases "backing_format_name h 2") auto
    with info_parse_reports [of h 2 x] f l that show ?thesis
      by (auto simp: be_u32_word_at be_u64_word_at MIN_HEADER_SIZE_def)
  qed
  moreover have "snapshots (tmp_file h) () = Ok []"
    using snapshots_bytes(2) [where fs = "tmp_file h" and path = "()", OF t] f l by (simp add: snapshots_result_def isize_limit_def)
  moreover have "\<exists>r. refcount_report (tmp_file h) () = Ok r"
    using refcount_report_bytes(2) [where fs = "tmp_file h" and path = "()", OF t] f l by (auto simp: report_result_def Let_def header_order_def)
  ultimately obtain rest where "audit_path (tmp_file h) () = Ok (audit i @ rest)" and "i_has_backing_file i"
    by (auto simp: audit_path_def)
  then show "audit_path_inspects_a_real_header_then_audits"
    unfolding audit_path_inspects_a_real_header_then_audits_def Let_def h_def [symmetric]
    by (simp add: audit_def)
qed

text \<open>The suite, and an instance of the laws it rests on.\<close>

definition forensic_suite ::
  "('s, 'l, 'e) report_api \<Rightarrow> ('s, 'e, 'src, 'f) finding_api \<Rightarrow> (rstring \<Rightarrow> rstring) \<Rightarrow> bool" where
  "forensic_suite api fapi to_lowercase \<longleftrightarrow>
     clean_image_has_no_anomalies \<and>
     backing_file_finding_names_the_referenced_image api fapi \<and>
     backing_file_without_name_still_emits_a_generic_finding \<and>
     backing_file_name_without_format_is_noted \<and>
     every_anomaly_kind_is_emitted_and_round_trips_to_a_finding api fapi \<and>
     no_orphans_yields_no_finding \<and>
     qcow1_version_is_flagged api to_lowercase \<and>
     qcow2_and_qcow3_are_not_flagged_as_v1 \<and>
     orphans_yield_a_medium_finding_with_the_count api fapi \<and>
     orphan_anomaly_round_trips_to_a_finding api fapi \<and>
     severities_are_graded api \<and>
     audit_path_inspects_a_real_header_then_audits \<and>
     audit_path_propagates_errors_on_non_qcow2 \<and>
     audit_snapshots_emits_one_finding_per_snapshot \<and>
     audit_snapshots_empty_yields_nothing \<and>
     snapshot_finding_carries_name_and_timestamp_in_evidence api fapi \<and>
     snapshot_anomaly_round_trips_to_a_finding api fapi"

lemma forensic_suite: "finding_laws api fapi \<Longrightarrow> forensic_suite api fapi to_lowercase"
  by (simp add: forensic_suite_def audit_tests_pass finding_tests_pass text_tests_pass
      text_tests_pass(4) audit_path_tests_pass)

definition plain_report :: "(nat, rstring, rstring \<times> rstring \<times> rstring option) report_api" where
  "plain_report = \<lparr>sev_high = 3, sev_medium = 2, sev_low = 1, loc_field = \<lambda>s. s,
     mk_evidence = \<lambda>f v l. (f, v, l)\<rparr>"

definition plain_findings ::
  "(nat, rstring \<times> rstring \<times> rstring option, unit, qcow2_anomaly) finding_api" where
  "plain_findings = \<lparr>sev_info = 0, mk_source = \<lambda>_ _ _. (), to_finding = \<lambda>a _. a, f_code = code,
     f_severity = observation_severity plain_report, f_note = anomaly_note,
     f_evidence = evidence plain_report, ev_field = fst, ev_value = \<lambda>e. fst (snd e)\<rparr>"

lemma plain_findings_laws: "finding_laws plain_report plain_findings"
  by (simp add: finding_laws_def plain_findings_def) (simp add: plain_report_def)

end
