(* ===== verification/Findings.thy ===== *)
theory Findings
  imports Forensic
begin

text \<open>
  What a finding says of its anomaly: the decimal numbers in notes and evidence can be read back,
  and the code and the evidence together determine the anomaly, but for a backing file that is
  named like the word that stands for a missing name.
\<close>

section \<open>Decimal numbers\<close>

text \<open>The number a string of digits denotes.\<close>

definition undec :: "rstring \<Rightarrow> nat" where
  "undec ds = foldl (\<lambda>acc d. 10 * acc + (unat d - 48)) 0 ds"

lemma unat_digit: "d < 10 \<Longrightarrow> unat (of_nat (48 + d) :: u8) = 48 + d"
  by (simp only: unat_of_nat) simp

lemma undec_dec: "undec (dec n) = n"
proof (induction n rule: dec.induct)
  case (1 n)
  show ?case
  proof (cases "n < 10")
    case True
    then show ?thesis by (subst dec.simps) (simp add: undec_def unat_digit del: of_nat_add)
  next
    case False
    then have "undec (dec (n div 10)) = n div 10" using 1 by simp
    then show ?thesis
      using False by (subst dec.simps) (simp add: undec_def unat_digit del: of_nat_add)
  qed
qed

lemma dec_inject [simp]: "dec m = dec n \<longleftrightarrow> m = n"
  using undec_dec by metis

lemma dec_word_inject: "dec (unat m) = dec (unat n) \<longleftrightarrow> m = n" for m n :: "'a::len word"
  by (simp add: word_unat_eq_iff)

text \<open>It is made of digits, and it is never empty.\<close>

lemma dec_digits: "dec n \<noteq> [] \<and> list_all (\<lambda>d. 48 \<le> unat d \<and> unat d \<le> 57) (dec n)"
proof (induction n rule: dec.induct)
  case (1 n)
  then show ?case
    by (cases "n < 10"; subst (1 2) dec.simps) (simp_all add: unat_digit del: of_nat_add)
qed

section \<open>Properties\<close>

text \<open>The word that stands in the evidence for a backing file without a name.\<close>

definition named_present :: "qcow2_anomaly \<Rightarrow> bool" where
  "named_present a = (case a of BackingFile (Some n) f \<Rightarrow> n = str ''present'' | _ \<Rightarrow> False)"

text \<open>
  C38. A finding loses nothing: its code and its evidence determine the anomaly with its payload,
  numbers included, except for a backing file named present, the word that stands for a missing
  name.
\<close>

theorem finding_determines_anomaly:
  assumes "\<And>f v l f' v' l'. mk_evidence api f v l = mk_evidence api f' v' l' \<Longrightarrow> v = v'"
    and "code a = code b" and "evidence api a = evidence api b"
    and "\<not> named_present a" and "\<not> named_present b"
  shows "a = b"
proof -
  have inj: "v = v'" if "mk_evidence api f v l = mk_evidence api f' v' l'" for f v l f' v' l'
    using assms(1) that .
  show ?thesis
    using assms(2-5)
    by (cases a; cases b)
       (auto simp: named_present_def header_evidence_def Let_def dec_word_inject
         simp del: dec_inject split: option.splits dest!: inj)
qed

theorem finding_determines_anomaly_witness:
  "OrphanClusters 7 100 \<noteq> OrphanClusters 71 100 \<and>
    evidence \<lparr>sev_high = 3, sev_medium = 2, sev_low = 1 :: nat, loc_field = id,
      mk_evidence = (\<lambda>f v l. (f, v, l))\<rparr> (OrphanClusters 7 100)
    \<noteq> evidence \<lparr>sev_high = 3, sev_medium = 2, sev_low = 1 :: nat, loc_field = id,
      mk_evidence = (\<lambda>f v l. (f, v, l))\<rparr> (OrphanClusters 71 100)"
proof -
  let ?api = "\<lparr>sev_high = 3, sev_medium = 2, sev_low = 1 :: nat, loc_field = id,
    mk_evidence = (\<lambda>f v l. (f, v, l))\<rparr> :: (nat, rstring, rstring \<times> rstring \<times> rstring option) report_api"
  have "evidence ?api (OrphanClusters 7 100) = evidence ?api (OrphanClusters 71 100)
      \<Longrightarrow> OrphanClusters 7 100 = OrphanClusters 71 100"
    by (rule finding_determines_anomaly [of ?api]) (simp_all add: named_present_def)
  then show ?thesis by auto
qed

text \<open>The exception is real: a file named \<open>present\<close> leaves the evidence of a missing name.\<close>

lemma present_is_ambiguous:
  "evidence api (BackingFile (Some (str ''present'')) f) = evidence api (BackingFile None f)"
  by simp

end
