(* ===== verification/Agreement.thy ===== *)
theory Agreement
  imports Guest Refcount_Fixture
begin

text \<open>
  The reader and the orphan scan of the refcount report walk the same two-level tables with code of
  their own and different masks.  Here the two are compared: over one table, and over a whole image.
\<close>

section \<open>One entry\<close>

lemma entry_agreement:
  "l2_host e = (case entry_meaning cb e of Normal off \<Rightarrow> Some (unat off) | _ \<Rightarrow> None) \<longleftrightarrow>
    bit e 62 \<or> odd (unat e) \<or> unat e mod 2 ^ 62 = host_field e"
proof -
  define m where "m = unat e mod 2 ^ 62"
  have "m < 2 ^ 64" unfolding m_def by (rule less_trans [of _ "2 ^ 62"]) simp_all
  then have u: "unat (of_nat m :: u64) = m" by (simp only: unat_of_nat) simp
  have "host_field e \<le> m"
  proof -
    have "host_field e \<le> unat e mod 2 ^ 56" unfolding host_field_def by (rule div_times_less_eq_dividend)
    also have "\<dots> = m mod 2 ^ 56"
      unfolding m_def by (rule mod_mod_cancel [symmetric]) (simp add: le_imp_power_dvd)
    also have "\<dots> \<le> m" by (rule mod_less_eq_dividend)
    finally show ?thesis .
  qed
  then show ?thesis
    unfolding entry_meaning_def l2_host_def m_def [symmetric] using u by auto
qed

text \<open>The host offset the reader takes the data of an entry from, when it is stored plainly.\<close>

definition reader_host :: "nat \<Rightarrow> u64 \<Rightarrow> nat option" where
  "reader_host cb e = (case classify_l2_entry (of_nat cb) e :: (unit, cluster_ref) outcome of
     Ok (Normal off) \<Rightarrow> Some (unat off) | _ \<Rightarrow> None)"

text \<open>No reserved bit is set where it would matter.\<close>

definition entry_clear :: "u64 \<Rightarrow> bool" where
  "entry_clear e \<longleftrightarrow> bit e 62 \<or> odd (unat e) \<or> unat e mod 2 ^ 62 = host_field e"

lemma reader_host_l2_host:
  "9 \<le> cb \<Longrightarrow> cb \<le> 20 \<Longrightarrow> entry_clear e \<longleftrightarrow> reader_host cb e = l2_host e"
  using entry_agreement [of e cb]
  by (auto simp: reader_host_def classify_l2_entry_eq entry_clear_def split: cluster_ref.splits)

lemma reader_host_stored:
  assumes "9 \<le> cb" and "cb \<le> 20" and "\<not> bit e 62" and "even (unat e)" and "unat e mod 2 ^ 62 \<noteq> 0"
  shows "reader_host cb e = Some (unat e mod 2 ^ 62)"
proof -
  have "unat e mod 2 ^ 62 < 2 ^ 64" by (rule less_trans [of _ "2 ^ 62"]) simp_all
  then have "unat (of_nat (unat e mod 2 ^ 62) :: u64) = unat e mod 2 ^ 62" by (simp only: unat_of_nat) simp
  with assms show ?thesis
    by (simp add: reader_host_def classify_l2_entry_eq entry_meaning_def)
qed

text \<open>An entry without a host offset in the bits the scan keeps is no cluster to it.\<close>

lemma scan_l2_skips: "host_field e = 0 \<Longrightarrow>
    scan_l2 V rt bits cs (e # es) a o' b = scan_l2 V rt bits cs es a o' b"
  by (simp add: host_field_0)

section \<open>A whole image\<close>

text \<open>The host offset the reader takes the data of a guest cluster from.\<close>

definition guest_host :: "nat \<Rightarrow> u64 list \<Rightarrow> u8 list \<Rightarrow> nat \<Rightarrow> nat option" where
  "guest_host cb l1 img c =
     (case guest_ref cb l1 img (c * 2 ^ cb) of Some (Normal off) \<Rightarrow> Some (unat off) | _ \<Rightarrow> None)"

text \<open>Tables inside the image, without a reserved bit set.\<close>

definition tables_clear :: "nat \<Rightarrow> u64 list \<Rightarrow> u8 list \<Rightarrow> bool" where
  "tables_clear cb l1 img \<longleftrightarrow>
     list_all (\<lambda>e. unat e mod 2 ^ 63 = host_field e \<and>
       (if host_field e = 0 then True
        else host_field e + 2 ^ cb \<le> length img \<and>
          list_all entry_clear (table_at img (host_field e) (2 ^ cb div 8)))) l1"

lemma guest_host_block:
  assumes cb: "9 \<le> cb" and t: "tables_clear cb l1 img" and i: "i < length l1"
  shows "List.map_filter (\<lambda>j. guest_host cb l1 img (i * (2 ^ cb div 8) + j)) [0..<2 ^ cb div 8]
    = List.map_filter l2_host (table_at img (host_field (l1 ! i)) (2 ^ cb div 8))"
proof -
  define e where "e = l1 ! i"
  have n: "2 ^ cb div 8 = (2 :: nat) ^ (cb - 3)"
    using cb power_diff [of "2 :: nat" 3 cb] by simp
  have cb2: "(2 :: nat) ^ cb = 8 * 2 ^ (cb - 3)"
    using cb power_add [of "2 :: nat" 3 "cb - 3"] by simp
  have te: "unat e mod 2 ^ 63 = host_field e" "host_field e = 0 \<or> host_field e + 2 ^ cb \<le> length img \<and>
      list_all entry_clear (table_at img (host_field e) (2 ^ cb div 8))"
    using t i by (auto simp: tables_clear_def list_all_length e_def split: if_splits)
  have l1: "guest_l1 cb l1 ((i * 2 ^ (cb - 3) + j) * 2 ^ cb) = host_field e"
    and l2: "(i * 2 ^ (cb - 3) + j) * 2 ^ cb div 2 ^ cb mod 2 ^ (cb - 3) = j"
    if "j < 2 ^ (cb - 3)" for j
  proof -
    have "2 * cb - 3 = cb + (cb - 3)" using cb by simp
    then have "(i * 2 ^ (cb - 3) + j) * 2 ^ cb div 2 ^ (2 * cb - 3) = i"
      using that by (simp only: power_add div_mult2_eq) simp
    with te(1) i show "guest_l1 cb l1 ((i * 2 ^ (cb - 3) + j) * 2 ^ cb) = host_field e"
      by (simp add: guest_l1_def n e_def)
    show "(i * 2 ^ (cb - 3) + j) * 2 ^ cb div 2 ^ cb mod 2 ^ (cb - 3) = j"
      using that by (simp add: n)
  qed
  show ?thesis
  proof (cases "host_field e = 0")
    case True
    have "List.map_filter (\<lambda>j. guest_host cb l1 img (i * (2 ^ cb div 8) + j)) [0..<2 ^ cb div 8]
        = List.map_filter (\<lambda>j. None) [0..<2 ^ cb div 8]"
      by (rule map_filter_cong) (simp add: guest_host_def guest_ref_def Let_def n l1 True)
    then show ?thesis
      using True by (simp add: e_def [symmetric] table_at_def List.map_filter_def)
  next
    case False
    define T where "T = table_at img (host_field e) (2 ^ cb div 8)"
    have f: "host_field e + 8 * 2 ^ (cb - 3) \<le> length img" and c: "list_all entry_clear T"
      using te(2) False by (simp_all add: cb2 T_def)
    have T: "T = be_u64_table (take (8 * 2 ^ (cb - 3)) (drop (host_field e) img))"
      using False f by (simp add: T_def table_at_def n)
    have lT: "length T = 2 ^ (cb - 3)" using f by (simp add: T length_be_u64_table)
    have "guest_host cb l1 img (i * (2 ^ cb div 8) + j) = l2_host (T ! j)" if j: "j < 2 ^ (cb - 3)" for j
    proof -
      have "8 * j + 8 \<le> 8 * 2 ^ (cb - 3)" using j by simp
      then have "T ! j = from_be (take 8 (drop (host_field e + 8 * j) img))"
        using f unfolding T by (subst nth_be_u64_table) (simp_all add: drop_take ac_simps)
      moreover have "entry_clear (T ! j)" using c j lT by (simp add: list_all_length)
      then have "l2_host (T ! j) = (case entry_meaning cb (T ! j) of Normal off \<Rightarrow> Some (unat off) | _ \<Rightarrow> None)"
        using entry_agreement [of "T ! j" cb] by (simp add: entry_clear_def)
      moreover have "host_field e + 8 * j + 8 \<le> length img" using f j by simp
      ultimately show ?thesis
        using j False by (simp add: guest_host_def guest_ref_def Let_def n l1 l2)
    qed
    moreover have "table_at img (host_field e) (2 ^ (cb - 3)) = T" by (simp add: T_def n)
    ultimately show ?thesis
      unfolding e_def [symmetric] n map_filter_nth [of l2_host T] lT
      by (simp add: map_filter_nth [of l2_host T] lT) (intro map_filter_cong, simp add: n)
  qed
qed

text \<open>The scan visits exactly the data clusters of the guest disk, in the order of the disk.\<close>

lemma scan_enumerates_guest_clusters:
  assumes "9 \<le> cb" and "tables_clear cb l1 img"
  shows "reachable_hosts cb img l1 = List.map_filter (guest_host cb l1 img) [0..<length l1 * (2 ^ cb div 8)]"
proof -
  have "map (\<lambda>e. List.map_filter l2_host (table_at img (host_field e) (2 ^ cb div 8))) l1
      = map (\<lambda>i. List.map_filter l2_host (table_at img (host_field (l1 ! i)) (2 ^ cb div 8))) [0..<length l1]"
    by (rule nth_equalityI) simp_all
  also have "\<dots> = map (\<lambda>i. List.map_filter (\<lambda>j. guest_host cb l1 img (i * (2 ^ cb div 8) + j)) [0..<2 ^ cb div 8]) [0..<length l1]"
    by (rule map_cong) (simp_all add: guest_host_block [OF assms])
  finally show ?thesis
    by (simp add: reachable_hosts_def map_filter_upt_blocks)
qed

lemma table_at_l1:
  assumes "unat (h_l1_table_offset h) + 8 * unat (h_l1_size h) \<le> length img \<or> h_l1_size h = 0"
    and "h_l1_table_offset h \<noteq> 0"
  shows "table_at img (unat (h_l1_table_offset h)) (unat (h_l1_size h)) = image_l1 h img"
  using assms by (auto simp: table_at_def image_l1_def unat_eq_0 be_u64_table_short)

text \<open>
  The lookup of the reader, asked for the start of a cluster: is its data stored plainly in the
  file?  It is when the guest disk has it there.
\<close>

definition data_cluster :: "'b read_seek_ops \<Rightarrow> 'b qcow2_reader \<Rightarrow> nat \<Rightarrow> bool" where
  "data_cluster V r c =
     (case fst (cluster_ref_for V (of_nat (c * unat (cluster_size r))) r) of
        Ok (Normal off) \<Rightarrow> True | _ \<Rightarrow> False)"

lemma data_cluster_guest_host:
  assumes "byte_source V ok content pos" and r: "reader_inv ok r" and c: "c * 2 ^ reader_cb r < 2 ^ 64"
  shows "data_cluster V r c \<longleftrightarrow> guest_host (reader_cb r) (l1_table r) (content (backing r)) c \<noteq> None"
proof -
  have wf: "reader_wf r" using r by (simp add: reader_inv_def)
  have u: "unat (of_nat (c * 2 ^ reader_cb r) :: u64) = c * 2 ^ reader_cb r"
    using c by (simp only: unat_of_nat) simp
  from byte_source.cluster_ref_for_guest [OF assms(1) r, of "of_nat (c * 2 ^ reader_cb r)"]
  obtain x s where e: "cluster_ref_for V (of_nat (c * 2 ^ reader_cb r)) r = (x, s)"
    and x: "case guest_ref (reader_cb r) (l1_table r) (content (backing r)) (c * 2 ^ reader_cb r) of
       Some c \<Rightarrow> x = Ok c | None \<Rightarrow> \<exists>e. x = Err e"
    unfolding u by blast
  have "data_cluster V r c \<longleftrightarrow> (\<exists>off. x = Ok (Normal off))"
    unfolding data_cluster_def wf_cluster_size [OF wf] e by (simp split: outcome.split cluster_ref.split)
  also have "\<dots> \<longleftrightarrow> guest_host (reader_cb r) (l1_table r) (content (backing r)) c \<noteq> None"
    using x by (auto simp: guest_host_def split: option.splits cluster_ref.splits)
  finally show ?thesis .
qed

text \<open>Past the L1 table there is no data.\<close>

lemma guest_host_past_l1:
  assumes "9 \<le> cb" and "length l1 * (2 ^ cb div 8) \<le> c"
  shows "guest_host cb l1 img c = None"
proof -
  have n: "2 ^ cb div 8 = (2 :: nat) ^ (cb - 3)"
    using assms(1) power_diff [of "2 :: nat" 3 cb] by simp
  have "2 * cb - 3 = cb + (cb - 3)" using assms(1) by simp
  then have "c * 2 ^ cb div 2 ^ (2 * cb - 3) = c div 2 ^ (cb - 3)"
    by (simp only: power_add div_mult2_eq) simp
  moreover have "length l1 \<le> c div 2 ^ (cb - 3)"
    using assms(2) unfolding n by (simp add: less_eq_div_iff_mult_less_eq)
  ultimately show ?thesis by (simp add: guest_host_def guest_ref_def guest_l1_def Let_def)
qed

text \<open>Counting up to the end of a range, or to a point in it and from there.\<close>

lemma filter_split_count:
  assumes "\<And>c. s \<le> c \<Longrightarrow> \<not> P c"
  shows "length (filter P [0..<s]) = length (filter P [0..<d]) + length (filter P [d..<s])"
proof (cases "d \<le> s")
  case True
  then have "[0..<s] = [0..<d] @ [d..<s]" using upt_add_eq_append [of 0 d "s - d"] by simp
  then show ?thesis by simp
next
  case False
  then have "[0..<d] = [0..<s] @ [s..<d]" using upt_add_eq_append [of 0 s "d - s"] by simp
  moreover have "filter P [s..<d] = []" using assms by (simp add: filter_empty_conv)
  ultimately show ?thesis using False by simp
qed

text \<open>The count of a report whose header the strict parser accepts.\<close>

lemma report_allocated:
  assumes "fs path = Inr img" and "length img < isize_limit" and "header_parse (take 104 img) = Ok h"
    and "unat (h_l1_size h) \<le> 2 ^ 20"
    and t: "table_at img (unat (h_l1_table_offset h)) (unat (h_l1_size h)) = l1"
    and "refcount_report fs path = Ok rep" and "unat (rr_refcount_order rep) \<le> 6"
  shows "unat (rr_allocated_clusters rep) =
    min (2 ^ 24 + 1) (length (reachable_hosts (unat (h_cluster_bits h)) img l1))"
proof -
  from assms(3) have d: "decodable_header (take 104 img)"
    and h: "h_cluster_bits h = be_u32 (take 104 img) 20" "h_l1_size h = be_u32 (take 104 img) 36"
      "h_l1_table_offset h = be_u64 (take 104 img) 40"
    by (auto simp: header_parse_Ok_iff)
  have fields: "be_word_at 4 img 20 = h_cluster_bits h" "be_word_at 4 img 36 = h_l1_size h"
    "be_word_at 8 img 40 = h_l1_table_offset h"
    by (simp_all add: h be_u32_word_at be_u64_word_at be_word_at_take)
  have cb: "9 \<le> unat (h_cluster_bits h)" "unat (h_cluster_bits h) \<le> 20"
    using d by (simp_all add: decodable_header_def h)
  have l1: "table_at img (unat (h_l1_table_offset h)) (min (unat (h_l1_size h)) (2 ^ 20)) = l1"
    using t assms(4) by (simp add: min_absorb1)
  have "report_result img (Ok rep)"
    using refcount_report_bytes(2) [where fs = fs and path = path, OF assms(1,2)] assms(6) by simp
  then have "rr_allocated_clusters rep = of_nat
      (min (length (reachable_hosts (unat (h_cluster_bits h)) img l1)) (scan_cap + 1))"
    using cb assms(7) unfolding report_result_def Let_def fields l1
    by (auto simp: header_report_def split: if_splits)
  then show ?thesis by (simp add: counter) (simp add: scan_cap_def)
qed

lemma length_map_filter: "length (List.map_filter f xs) = length (filter (\<lambda>x. f x \<noteq> None) xs)"
  by (simp add: List.map_filter_def)

section \<open>Properties\<close>


text \<open>
  C34. The orphan scan of an L2 table counts the clusters the reader sees in it: over any source and
  from any counters up to the cap, on a table whose entries have no reserved bit set (bits 1 to
  8 and 56 to 61, where the entry is neither compressed nor a zero cluster), the allocated count
  grows by the entries the lookup of the reader classifies as plain data, up to one above the
  cap of 2^24, and the orphans by those among the first 2^24 of them whose refcount, looked up
  at the cluster the reader takes the data from, is 0. With reserved bits the two part: an entry
  whose only offset bits are reserved is data to the reader, at that offset, and no cluster to
  the scan.
\<close>

theorem scan_counts_reader_clusters:
  assumes "byte_source V ok content pos" and "ok b" and "9 \<le> cb" and "cb \<le> 20" and "ord \<le> 6"
    and "list_all entry_clear es" and "a \<le> 2 ^ 24" and "o' \<le> a"
  shows "(\<exists>b'. scan_l2 V rt (2 ^ ord) (2 ^ cb) es (of_nat a) (of_nat o') b =
      (let hs = List.map_filter (reader_host cb) es in
       Ok (of_nat (min (a + length hs) (2 ^ 24 + 1)),
           of_nat (o' + length (filter (\<lambda>h. refcount_value cb ord rt (content b) (h div 2 ^ cb) = Some 0)
             (take (2 ^ 24 - a) hs))),
           2 ^ 24 < a + length hs), b') \<and> ok b' \<and> content b' = content b) \<and>
    (\<forall>e. \<not> bit e 62 \<and> even (unat e) \<and> host_field e = 0 \<and> unat e mod 2 ^ 62 \<noteq> 0 \<longrightarrow>
      reader_host cb e = Some (unat e mod 2 ^ 62) \<and>
      scan_l2 V rt (2 ^ ord) (2 ^ cb) (e # es) (of_nat a) (of_nat o') b =
        scan_l2 V rt (2 ^ ord) (2 ^ cb) es (of_nat a) (of_nat o') b)"
proof (intro conjI allI impI)
  have "List.map_filter (reader_host cb) es = List.map_filter l2_host es"
    using assms(6) reader_host_l2_host [OF assms(3,4)]
    by (intro map_filter_cong) (auto simp: list_all_iff)
  then show "\<exists>b'. scan_l2 V rt (2 ^ ord) (2 ^ cb) es (of_nat a) (of_nat o') b =
      (let hs = List.map_filter (reader_host cb) es in
       Ok (of_nat (min (a + length hs) (2 ^ 24 + 1)),
           of_nat (o' + length (filter (\<lambda>h. refcount_value cb ord rt (content b) (h div 2 ^ cb) = Some 0)
             (take (2 ^ 24 - a) hs))),
           2 ^ 24 < a + length hs), b') \<and> ok b' \<and> content b' = content b"
    using byte_source.scan_l2_spec [OF assms(1,2-5) assms(7)[folded scan_cap_def] assms(8), of rt es]
    by (simp only: scan_cap_def orphan_count_def)
next
  fix e :: u64
  assume e: "\<not> bit e 62 \<and> even (unat e) \<and> host_field e = 0 \<and> unat e mod 2 ^ 62 \<noteq> 0"
  then show "reader_host cb e = Some (unat e mod 2 ^ 62)" by (simp add: reader_host_stored [OF assms(3,4)])
  from e show "scan_l2 V rt (2 ^ ord) (2 ^ cb) (e # es) (of_nat a) (of_nat o') b =
      scan_l2 V rt (2 ^ ord) (2 ^ cb) es (of_nat a) (of_nat o') b"
    by (simp only: scan_l2_skips)
qed

theorem scan_counts_reader_clusters_witness:
  "(\<exists>b'. scan_l2 cursor_ops [0] 4 512 [0x8000000000000200, 0x201, 0] 0 0 (medium_of nibbles)
      = (Ok (1, 1, False), b')) \<and>
    reader_host 9 0x100 = Some 0x100 \<and>
    (\<exists>b'. scan_l2 cursor_ops [0] 4 512 [0x100, 0x8000000000000200, 0x201, 0] 0 0 (medium_of nibbles)
      = (Ok (1, 1, False), b'))"
proof -
  have c: "entry_clear 0x8000000000000200" "entry_clear 0x201" "entry_clear 0"
    by (simp_all add: entry_clear_def host_field_def)
  have h: "reader_host 9 0x8000000000000200 = Some 512" "reader_host 9 0x201 = None" "reader_host 9 0 = None"
    using c by (simp_all add: reader_host_l2_host [of 9, simplified]) (simp_all add: l2_host_def host_field_def)
  have "refcount_value 9 2 [0] nibbles 1 = Some 0"
    by (simp add: refcount_value_def get_at_def refcounts_per_block_def block_offset_def Let_def)
  moreover have "medium_ok (medium_of nibbles)"
    by (simp add: medium_ok_def medium_of_def nibbles_def isize_limit_def)
  ultimately have "\<exists>b'. scan_l2 cursor_ops [0] 4 512 [0x8000000000000200, 0x201, 0] 0 0 (medium_of nibbles)
      = (Ok (1, 1, False), b')"
    "reader_host 9 0x100 = Some 0x100"
    "scan_l2 cursor_ops [0] 4 512 [0x100, 0x8000000000000200, 0x201, 0] 0 0 (medium_of nibbles)
      = scan_l2 cursor_ops [0] 4 512 [0x8000000000000200, 0x201, 0] 0 0 (medium_of nibbles)"
    using scan_counts_reader_clusters [OF cursor_source.byte_source_axioms, of "medium_of nibbles" 9 2
        "[0x8000000000000200, 0x201, 0]" 0 0 "[0]"] c
    by (auto simp: h List.map_filter_simps Let_def host_field_def simp del: scan_l2.simps)
  then show ?thesis by simp
qed

text \<open>
  C37. The refcount report and the reader see one disk: when both take the image of a path, its L2
  tables lie in the file, no reserved bit is set, the L1 table is not at offset 0 and the
  refcount order is at most 6, the allocated clusters of the report (with its own header parser,
  masks and table reads) are the clusters of the virtual disk that the lookup of the reader
  finds as plain data, plus those its tables hold past the end of the disk, which no read
  serves, up to the cap of 2^24 and the one counted over it.
\<close>

theorem report_counts_guest_clusters:
  assumes "fs path = Inr img" and "length img < isize_limit"
    and "reader_open fs path = Ok r" and "header_parse (take 104 img) = Ok h" and "h_l1_table_offset h \<noteq> 0"
    and "tables_clear (reader_cb r) (l1_table r) img"
    and "refcount_report fs path = Ok rep" and "unat (rr_refcount_order rep) \<le> 6"
    and "end_of_disk = (unat (virtual_disk_size r) + 2 ^ reader_cb r - 1) div 2 ^ reader_cb r"
    and "slots = length (l1_table r) * (2 ^ reader_cb r div 8)"
  shows "unat (rr_allocated_clusters rep) = min (2 ^ 24 + 1)
    (length (filter (data_cluster file_ops r) [0..<end_of_disk]) +
     length (filter (data_cluster file_ops r) [end_of_disk..<slots]))"
proof -
  let ?cb = "reader_cb r" and ?l1 = "l1_table r"
  have "open_result medium_ok med_bytes img (Ok r)"
    using file_bytes.open_reader_spec [of "medium_of img"] assms(1-3)
    by (simp add: reader_open_def file_open_def medium_ok_def)
  then have o: "opened_from medium_ok med_bytes img h r" and small: "unat (h_l1_size h) \<le> 2 ^ 20"
    and fit: "unat (h_l1_table_offset h) + 8 * unat (h_l1_size h) \<le> length img \<or> h_l1_size h = 0"
    using assms(4) by (auto simp: open_result_def split: if_splits)
  then have r: "reader_inv medium_ok r" "med_bytes (backing r) = img" "?cb = unat (h_cluster_bits h)"
    "?l1 = image_l1 h img"
    by (simp_all add: opened_from_def image_l1_def)
  have cb: "9 \<le> ?cb" "?cb \<le> 20" using r(1) wf_cb by (auto simp: reader_inv_def)
  have rep: "unat (rr_allocated_clusters rep) = min (2 ^ 24 + 1) (length (reachable_hosts ?cb img ?l1))"
    using report_allocated [OF assms(1,2,4) small table_at_l1 [OF fit assms(5)] assms(7,8)] by (simp add: r)
  let ?P = "\<lambda>c. guest_host ?cb ?l1 img c \<noteq> None"
  have hosts: "length (reachable_hosts ?cb img ?l1) = length (filter ?P [0..<slots])"
    using scan_enumerates_guest_clusters [OF cb(1) assms(6)] assms(10) by (simp only: length_map_filter)
  have past: "\<not> ?P c" if "slots \<le> c" for c
    using guest_host_past_l1 [OF cb(1)] that assms(10) by simp
  have P: "data_cluster file_ops r c = ?P c" if "c < end_of_disk \<or> c < slots" for c
  proof -
    have "length ?l1 \<le> 2 ^ 20" using small by (simp add: r(4) image_l1_def length_be_u64_table)
    have "c * 2 ^ ?cb < 2 ^ 64" using that
    proof
      assume "c < end_of_disk"
      then have "(c + 1) * 2 ^ ?cb \<le> unat (virtual_disk_size r) + 2 ^ ?cb - 1"
        unfolding assms(9) by (simp add: less_eq_div_iff_mult_less_eq flip: Suc_le_eq)
      then show ?thesis using unsigned_less [of "virtual_disk_size r", where 'a = nat] by simp
    next
      assume "c < slots"
      also have "slots \<le> 2 ^ 20 * 2 ^ 17"
        unfolding assms(10) using \<open>length ?l1 \<le> 2 ^ 20\<close> cb(2) power_increasing [of ?cb 20 "2 :: nat"]
        by (intro mult_le_mono) auto
      finally have "c * 2 ^ ?cb \<le> 2 ^ 37 * 2 ^ 20"
        using power_increasing [OF cb(2), of "2 :: nat"] by (intro mult_le_mono) simp_all
      then show ?thesis by simp
    qed
    from data_cluster_guest_host [OF file_bytes.byte_source_axioms r(1) this] show ?thesis by (simp add: r(2))
  qed
  have "filter (data_cluster file_ops r) [0..<end_of_disk] = filter ?P [0..<end_of_disk]"
    "filter (data_cluster file_ops r) [end_of_disk..<slots] = filter ?P [end_of_disk..<slots]"
    by (auto intro!: filter_cong simp: P)
  with rep hosts filter_split_count [of slots ?P end_of_disk, OF past] show ?thesis by simp
qed

theorem report_counts_guest_clusters_witness:
  "\<exists>r rep. reader_open (\<lambda>_ :: unit. Inr (rc_build 1)) () = Ok r \<and>
    refcount_report (\<lambda>_ :: unit. Inr (rc_build 1)) () = Ok rep \<and>
    unat (rr_allocated_clusters rep) = min (2 ^ 24 + 1)
      (length (filter (data_cluster file_ops r) [0..<1]) + length (filter (data_cluster file_ops r) [1..<64]))"
proof -
  let ?h = "\<lparr>h_cluster_bits = 9, h_disk_size = 512, h_l1_size = 1, h_l1_table_offset = 512\<rparr>"
  let ?fs = "\<lambda>_ :: unit. Inr (rc_build 1)"
  have b: "rc_build_order 4 (ucast (1 :: u16)) = (Ok (rc_build 1) :: (unit, u8 list) outcome)"
    by (rule rc_build_is_order_4)
  obtain rep where rep: "refcount_report ?fs () = Ok rep" "rr_refcount_order rep = 4"
    using rc_build_order_report [of 4 "ucast (1 :: u16)" "()"] unfolding b by auto
  have l1: "image_l1 ?h (rc_build 1) = [0x8000000000000800]"
    using table_at_l1 [of ?h "rc_build 1"] rc_build_facts(1,10) [of 1] by simp
  have l: "length (rc_build 1) < isize_limit" by (simp add: rc_build_facts isize_limit_def)
  have "open_result medium_ok med_bytes (rc_build 1) (reader_open ?fs ())"
    using file_bytes.open_reader_spec [of "medium_of (rc_build 1)"] l
    by (simp add: reader_open_def file_open_def medium_ok_def)
  then obtain r where r: "reader_open ?fs () = Ok r" "opened_from medium_ok med_bytes (rc_build 1) ?h r"
    by (auto simp: open_result_def rc_build_header rc_build_facts split: outcome.splits)
  then have f: "reader_cb r = 9" "l1_table r = [0x8000000000000800]" "virtual_disk_size r = 512"
    using l1 by (simp_all add: opened_from_def image_l1_def)
  have "host_field 0x8000000000000800 = 2048" "entry_clear 0x8000000000000A00" "entry_clear 0"
    by (simp_all add: host_field_def entry_clear_def)
  then have "tables_clear 9 [0x8000000000000800] (rc_build 1)"
    by (simp add: tables_clear_def rc_build_facts list_all_iff)
  with report_counts_guest_clusters [where fs = ?fs and path = "()" and h = ?h and img = "rc_build 1",
      OF refl l r(1) rc_build_header] rep r(1)
  show ?thesis by (simp add: f)
qed

end
