(* ===== verification/Nested.thy ===== *)
theory Nested
  imports Testutil
begin

text \<open>
  An image stored in an image: \<open>from_reader\<close> takes any source that reads and seeks, and a reader is
  one.  What it takes for the bytes of an image to be readable (\<open>readable_image\<close>) holds of the bytes
  of a file and of the guest disk of another reader alike.
\<close>

section \<open>An image in an image\<close>

lemma nested_reader:
  assumes "byte_source V ok content pos" and "whole_disk inflate ok content r" and "rpos r = 0"
    and "readable_image inflate h (reader_disk inflate content r)"
  shows "\<exists>r'. open_reader (reader_ops V inflate) r = Ok r' \<and> rpos r' = 0 \<and>
    virtual_disk_size r' = h_disk_size h \<and>
    whole_disk inflate (whole_disk inflate ok content) (reader_disk inflate content) r' \<and>
    reader_disk inflate (reader_disk inflate content) r' = image_disk inflate h (reader_disk inflate content r)"
  using readable_image_opens [OF reader_over.guest_source [OF reader_over.intro [OF assms(1)]] assms(2) _ assms(4)]
    assms(3)
  by simp

text \<open>The small image in the one cluster of the image of testutil.\<close>

lemmas readable_test_qcow2 = one_cluster_readable [OF test_one_cluster]

lemma readable_sample: "readable_image no_inflate sample_fields (padded_sector sample_image)"
  "image_disk no_inflate sample_fields (padded_sector sample_image) = [1, 2, 3, 4]"
proof -
  define z where "z = replicate 420 (0 :: u8)"
  have p: "padded_sector sample_image = sample_image @ z" "length z = 420" "take 12 z = replicate 12 0"
    by (simp_all add: padded_sector_def sample_length z_def)
  have h: "header_parse (take 104 (sample_image @ z)) = Ok sample_fields"
    by (simp add: header_parse_def sample_defs be_u32_def be_u64_def get_range_def from_be_def
        be_nat_def MAGIC_def MIN_HEADER_SIZE_def p(2))
  have l: "image_l1 sample_fields (sample_image @ z) = [80]"
    using sample_l1 by (simp add: image_l1_def sample_fields_def sample_length)
  have g: "guest_byte no_inflate 9 [80] (sample_image @ z) off = Some ([1, 2, 3, 4] ! off)" if "off < 4" for off
  proof -
    have "off = 0 \<or> off = 1 \<or> off = 2 \<or> off = 3" using that by auto
    then show ?thesis
      by (auto simp: guest_byte_def guest_ref_def guest_l1_def sample_defs from_be_def be_nat_def
          entry_meaning_def cluster_byte_def get_at_def)
  qed
  show "readable_image no_inflate sample_fields (padded_sector sample_image)"
    using h l g by (auto simp: readable_image_def p sample_length guest_complete_def isize_limit_def)
      (auto simp: sample_fields_def)
  have "image_disk no_inflate sample_fields (sample_image @ z) = map (\<lambda>off. [1, 2, 3, 4] ! off) [0..<4]"
    unfolding image_disk_def guest_disk_def l by (rule map_cong) (simp_all add: sample_fields_def g)
  then show "image_disk no_inflate sample_fields (padded_sector sample_image) = [1, 2, 3, 4]"
    by (simp add: p upt_rec)
qed

section \<open>Properties\<close>

text \<open>
  C26. An image in an image: from_reader over a reader of a readable image opens the image that the
  guest disk of the first one is, and reads its guest disk, for any source underneath and any
  count of bytes.
\<close>

theorem nested_image_reads_back:
  assumes "byte_source V ok content pos" and "ok b" and "pos b = 0"
    and "readable_image inflate h (content b)"
    and "readable_image inflate h' (image_disk inflate h (content b))"
  shows "\<exists>r r' t. open_reader V b = Ok r \<and> open_reader (reader_ops V inflate) r = Ok r' \<and>
    read_window (reader_ops (reader_ops V inflate) inflate) n r' =
      (Ok (take n (image_disk inflate h' (image_disk inflate h (content b)))), t)"
proof -
  from readable_image_opens [OF assms(1-4)] obtain r where
    r: "open_reader V b = Ok r" "rpos r = 0" "whole_disk inflate ok content r"
      "reader_disk inflate content r = image_disk inflate h (content b)" by blast
  from nested_reader [OF assms(1) r(3,2)] assms(5) r(4) obtain r' where
    r': "open_reader (reader_ops V inflate) r = Ok r'" "rpos r' = 0"
      "whole_disk inflate (whole_disk inflate ok content) (reader_disk inflate content) r'"
      "reader_disk inflate (reader_disk inflate content) r' = image_disk inflate h' (image_disk inflate h (content b))"
    by auto
  note outer = reader_over.guest_source [OF reader_over.intro [OF assms(1)]]
  from byte_source.read_window_spec [OF reader_over.guest_source [OF reader_over.intro [OF outer]] r'(3), of n]
  show ?thesis using r(1) r' by auto
qed

theorem nested_image_reads_back_witness:
  "\<exists>r r' t. open_reader file_ops (medium_of (test_qcow2 sample_image)) = Ok r \<and>
    open_reader (reader_ops file_ops no_inflate) r = Ok r' \<and>
    read_window (reader_ops (reader_ops file_ops no_inflate) no_inflate) 100 r' = (Ok [1, 2, 3, 4], t)"
  using nested_image_reads_back [OF file_bytes.byte_source_axioms, of "medium_of (test_qcow2 sample_image)"
      no_inflate test_fields sample_fields 100] readable_test_qcow2 readable_sample
  by (simp add: medium_ok_def length_test_qcow2 isize_limit_def)

end
