(* ===== verification/Spec2Isabelle.thy ===== *)
theory Spec2Isabelle
  imports Vfs Forensic Testutil Consumer Fuzz Header_Tests Reader_Tests Snapshots_Tests Refcount_Tests Forensic_Tests Findings Agreement Nested
begin

text \<open>
  qcow2-forensic: a read-only reader of QCOW2 disk images and a forensic auditor of them.

  \<^bold>\<open>The program.\<close>  The crate \<open>qcow2\<close> (core/src) decodes an image.  \<open>Qcow2Reader::open\<close>,
  \<open>open_reader\<close> and \<open>from_reader\<close> (lib.rs) read the header and the L1 table from any seekable
  backing and give a reader that implements \<open>Read\<close> and \<open>Seek\<close> over the virtual disk; every read
  looks up an L1 and an L2 entry and then copies, zero-fills or decompresses one piece of one
  cluster.  \<open>Qcow2Source\<close> (vfs.rs) puts a reader behind a mutex and serves positioned reads.
  Beside the reader three functions on a path look at an image without decoding it: \<open>inspect\<close>
  (lib.rs, header.rs) for the facts of the header, \<open>snapshots\<close> (snapshots.rs) for the snapshot
  table, \<open>refcount_report\<close> (refcount.rs) for clusters in use whose refcount is 0.  The crate
  \<open>qcow2-forensic\<close> (forensic/src/lib.rs) grades their results into findings (\<open>audit_path\<close>).
  The fuzz targets (fuzz/fuzz_targets) drive these entry points with arbitrary bytes.

  \<^bold>\<open>The theories.\<close>
  \<^item> \<open>Qcow2_Prelude\<close>: machine integers, the outcome of a call (\<open>Ok\<close>, \<open>Err\<close>, \<open>Panic\<close>), operations
    on a state and their sequencing, the rules for \<open>op_safe\<close> (an operation does not panic and keeps
    an invariant), checked arithmetic, slices, big-endian integers, buffers written at offsets.
  \<^item> \<open>Device\<close>: a source as the pair of its operations \<open>read\<close> and \<open>seek\<close> (\<open>ReadSeekSend\<close>), the loops
    \<open>read_window\<close> (lib.rs) and \<open>read_exact\<close>, files and cursors, and the contracts as locales:
    \<open>read_seek\<close> (total and bounded, any bytes and errors), \<open>byte_source\<close> (serves a fixed content in
    pieces of any size), \<open>std_file\<close> and \<open>file_source\<close> (with the length and the position of a file).
  \<^item> \<open>Utf8\<close>: \<open>String::from_utf8_lossy\<close>.
  \<^item> \<open>Header\<close>: error.rs; \<open>Qcow2Header::parse\<close> (\<open>header_parse\<close>), \<open>Qcow2Info::parse\<close> (\<open>info_parse\<close>), the
    backing file name and the walk over the header extensions (\<open>ext_walk\<close>).
  \<^item> \<open>Reader\<close>: \<open>from_backing\<close>, \<open>cluster_ref_for\<close>, \<open>decompress_cluster\<close>, \<open>reader_read\<close>, \<open>reader_seek\<close>,
    \<open>inspect\<close>; the invariant \<open>reader_inv\<close>; the states a reader goes through (\<open>reader_reach\<close>).
  \<^item> \<open>Guest\<close>: the abstract disk (\<open>guest_byte\<close>, \<open>guest_disk\<close>), the refinement of the reader to it, and
    the fact that a reader is itself a \<open>byte_source\<close> (a \<open>sublocale\<close>).
  \<^item> \<open>Consumer\<close>: the callers of a reader: what a read may change, and reading to the end.
  \<^item> \<open>Vfs\<close>: \<open>Qcow2Source\<close> and the states it goes through (\<open>source_reach\<close>).
  \<^item> \<open>Snapshots\<close>, \<open>Refcount\<close>: the two scans, each with a specification over the bytes of the image
    (\<open>snapshots_result\<close>, \<open>report_result\<close>, \<open>refcount_value\<close>) that the code is shown to implement.
  \<^item> \<open>Forensic\<close>, \<open>Findings\<close>: the audits, and what a finding says of its anomaly.
  \<^item> \<open>Agreement\<close>: the reader and the orphan scan, two readings of the same tables, compared: one L2
    table (\<open>scan_l2\<close> against \<open>classify_l2_entry\<close>), a whole image (\<open>refcount_report\<close> against \<open>cluster_ref_for\<close>).
  \<^item> \<open>Nested\<close>: an image stored in an image, read through two readers.
  \<^item> \<open>Fuzz\<close>: the fuzz targets.
  \<^item> \<open>Testutil\<close>, \<open>Header_Fixture\<close>, \<open>Reader_Fixture\<close>, \<open>Refcount_Fixture\<close> (and the encoder in
    \<open>Snapshots\<close>): the image builders of testutil.rs and of the test modules, with the round trips.
  \<^item> \<open>Testkit\<close>, \<open>Header_Tests\<close>, \<open>Reader_Tests\<close>, \<open>Snapshots_Tests\<close>, \<open>Refcount_Tests\<close>, \<open>Forensic_Tests\<close>: the test
    modules, one bool per test, and the proofs that they hold: from the round trips where a test uses
    a builder, from the specifications over the bytes where it patches an image.

  \<^bold>\<open>State and effects.\<close>  A method on \<open>&mut self\<close> is a function from the state to an outcome and the
  state it leaves, on every path.  The state of a reader is the record of its fields; the backing is
  of any type, with its operations as an argument.  A call of \<open>read\<close> returns the bytes it put into
  the buffer, so the count of the Rust method is the length of the list.  A panic is an outcome of
  its own: an arithmetic overflow (the arithmetic is that of a build with overflow checks, as the
  tests and the fuzz targets run it; a release build wraps instead), a slice out of range.  Lengths
  and indices (\<open>usize\<close>, 64 bits) are natural numbers, with the limits written out where a sum could
  pass them; a file, a vector or a slice is shorter than \<open>isize::MAX\<close>.

  \<^bold>\<open>What the lemmas show.\<close>  For each component: it never panics over any source that keeps the
  contract \<open>read_seek\<close> (the \<open>_safe\<close> lemmas, which follow the text of the code); on a source in
  working order its result is a function of the bytes of the image (the \<open>_spec\<close> and \<open>_from_bytes\<close>
  statements); and what an encoder writes is read back.  For the reader, that \<open>cluster_ref_for\<close> and
  the compressed descriptor compute the plain arithmetic of the format without overflow (\<open>_eq\<close>),
  that a read serves the guest disk and nothing else, that a loop over reads ends, and that on an
  image with bytes missing it collects them up to the first missing one (\<open>readable_run\<close>).

  \<^bold>\<open>Bounds and loops.\<close>  The loops \<open>read_window\<close>, \<open>read_exact\<close> and \<open>fill_loop\<close> recurse on the bytes still
  wanted, which every non-empty read decreases.  \<open>ext_walk\<close> has the 64 steps of the code as fuel,
  and running out is the fall-through to \<open>None\<close>.  The snapshot loop has the count of the header,
  at most 65536.  The L1 table has at most 2^20 entries, a read of the refcount table likewise; the
  scan recurses on its tables and stops after 2^24 clusters, the cap of the code.  Reading to the
  end has no bound in the code: it is a \<open>partial_function (option)\<close> and proved total.  The fuzz
  target reads at most 256 times.

  \<^bold>\<open>Parameters.\<close>  The DEFLATE decoder of flate2 (\<open>inflate\<close>, any function from bytes to bytes or an
  error) and its encoder (\<open>deflate\<close>, of which the round trip with the decoder is assumed, and a bound
  on the stream); the error constructor of forensic-vfs (\<open>vfs_io\<close>); the severities, locations and evidence records of
  forensicnomicon (\<open>report_api\<close>), and in the tests its findings (\<open>finding_api\<close>); the file system,
  which gives for a path the bytes of its file or the error of opening it.

  \<^bold>\<open>Not modelled.\<close>  The texts of the error messages (derived by thiserror).  Interrupted system calls,
  which the standard library retries.  Allocation failure.  Concurrency beyond the lock of
  \<open>Qcow2Source\<close>, which makes each positioned read one step.  The test \<open>qcow2_reader_is_send\<close>, a type
  check.  The integration tests, which run \<open>qemu-img\<close> or read images kept outside the repository.
  Workflows, scripts and documentation.
\<close>

section \<open>Properties that span components\<close>

text \<open>
  C28. One image, every interface. For a path whose file is a readable image (accepted header, L1
  table in the file, every guest byte present, a disk below 2^63), open succeeds and inspect
  reports the size of the disk that the reader and the vfs source have; reading to the end gives
  the guest disk of the bytes of the file, whatever the buffer sizes, and a positioned read, in
  every state of the shared source, gives its slice; and an audit of the path never calls it an
  overlay, encrypted, external or legacy.
\<close>

theorem one_image_every_interface:
  assumes "fs path = Inr img" and "length img < isize_limit" and "readable_image inflate h img"
  shows "\<exists>r i. reader_open fs path = Ok r \<and> inspect fs path = Ok i \<and>
    i_virtual_disk_size i = virtual_disk_size r \<and> source_len (source_new r) = virtual_disk_size r \<and>
    length (image_disk inflate h img) = unat (virtual_disk_size r) \<and>
    (\<exists>t. read_to_end (reader_ops file_ops inflate) sizes 0 r = Some (Ok (image_disk inflate h img), t)) \<and>
    (\<forall>s off n. source_reach file_ops inflate vfs_io r s \<longrightarrow>
      fst (read_at file_ops inflate vfs_io off n s) = Ok (take n (drop (unat off) (image_disk inflate h img)))) \<and>
    (\<forall>out a. audit_path fs path = Ok out \<longrightarrow> a \<in> set out \<longrightarrow>
      (case a of BackingFile _ _ \<Rightarrow> False | Encrypted _ \<Rightarrow> False | ExternalDataFile \<Rightarrow> False
       | LegacyQcow1 \<Rightarrow> False | _ \<Rightarrow> True))"
proof -
  have m: "medium_ok (medium_of img)" using assms(2) by (simp add: medium_ok_def)
  from readable_image_opens [OF file_bytes.byte_source_axioms m] assms(3) obtain r where
    "open_reader file_ops (medium_of img) = Ok r"
    and r: "rpos r = 0" "virtual_disk_size r = h_disk_size h" "whole_disk inflate medium_ok med_bytes r"
      "reader_disk inflate med_bytes r = image_disk inflate h img"
    by fastforce
  then have o: "reader_open fs path = Ok r" by (simp add: reader_open_def file_open_def assms(1))
  have strict: "header_parse (take 8192 img) = Ok h"
    using assms(3) header_parse_window [of 8192 img] by (simp add: readable_image_def)
  have "length (take 8192 img) < isize_limit" using assms(2) by simp
  from strict_parse_info [OF strict this] obtain i where
    i: "info_parse (take 8192 img) = Ok i" "i_virtual_disk_size i = h_disk_size h" by blast
  note inspected = inspect_bytes [where fs = fs and path = path, OF assms(1,2)]
  have whole: "\<exists>t. read_to_end (reader_ops file_ops inflate) sizes 0 r = Some (Ok (image_disk inflate h img), t)"
    using byte_source.read_to_end_content [OF file_guest.guest_source r(3), of sizes 0] r(1,4) by auto
  have at: "fst (read_at file_ops inflate vfs_io off n s) = Ok (take n (drop (unat off) (image_disk inflate h img)))"
    if "source_reach file_ops inflate vfs_io r s" for s off n
  proof -
    have "file_guest.shared r s"
      using file_guest.source_reach_shared [OF that] r(3) by (simp add: whole_disk_def)
    from file_guest.read_at_whole [OF this r(3), of vfs_io off n] r(4) show ?thesis by auto
  qed
  have plain: "case a of BackingFile _ _ \<Rightarrow> False | Encrypted _ \<Rightarrow> False | ExternalDataFile \<Rightarrow> False
      | LegacyQcow1 \<Rightarrow> False | _ \<Rightarrow> True"
    if "audit_path fs path = Ok out" and "a \<in> set out" for out a
  proof (cases "a \<in> set (audit i)")
    case True
    from strict_audit [OF strict i(1) True] show ?thesis by auto
  next
    case False
    with that inspected i(1) show ?thesis
      by (auto simp: audit_path_def and_then_Ok_iff audit_snapshots_def audit_orphans_def split: if_splits)
  qed
  have l: "length (image_disk inflate h img) = unat (virtual_disk_size r)"
    using r(2) by (simp add: image_disk_def)
  show ?thesis
    using o inspected i r(2) whole at plain l
    by (intro exI [of _ r] exI [of _ i]) (simp add: source_len_def source_new_def)
qed

theorem one_image_every_interface_witness:
  "\<exists>r. reader_open sample_fs () = Ok r \<and>
    fst (read_at file_ops no_inflate (\<lambda>_ e. e) 1 2 (source_new r)) = Ok [2, 3] \<and>
    (\<exists>t. read_to_end (reader_ops file_ops no_inflate) (\<lambda>_. 2) 0 r = Some (Ok [1, 2, 3, 4], t))"
proof -
  from one_image_every_interface [where fs = sample_fs and path = "()" and sizes = "\<lambda>_. 2"
      and vfs_io = "\<lambda>_ e. e", OF sample_fs sample_readable(1)] obtain r where
    "reader_open sample_fs () = Ok r"
    "\<exists>t. read_to_end (reader_ops file_ops no_inflate) (\<lambda>_. 2) 0 r = Some (Ok [1, 2, 3, 4], t)"
    and "\<And>s off n. source_reach file_ops no_inflate (\<lambda>_ e. e) r s \<Longrightarrow>
      fst (read_at file_ops no_inflate (\<lambda>_ e. e) off n s) = Ok (take n (drop (unat off) [1, 2, 3, 4]))"
    unfolding sample_readable by blast
  from this(1,2) this(3) [OF source_created, of 1 2] show ?thesis by auto
qed

end
